theory Spec2Isabelle
  imports Main
begin

section \<open>Data model (interfaces Track, User, Lobby of the server)\<close>

text \<open>
  The server keeps all its state in three module-level containers: the object
  \<open>lobbies\<close>, the map \<open>lobbyAdvanceTimers\<close> and the map \<open>lobbyProcessingLocks\<close>.
  JavaScript numbers are modelled as integers: \<open>startTime\<close> and the clock are
  milliseconds, \<open>duration\<close> is seconds. An optional field is an \<open>option\<close>.
\<close>

datatype UserRole = dj | spectator

datatype Source = spotify | youtube | soundcloud

record Track =
  track_id :: string
  title :: string
  artist :: string
  uri :: string
  albumArt :: "string option"
  previewUrl :: "string option"
  source :: "Source option"
  streamUrl :: "string option"
  startTime :: "int option"
  duration :: "int option"

record User =
  user_id :: string
  name :: string
  role :: UserRole

record Lobby =
  lobby_id :: string
  users :: "User list"
  queue :: "Track list"

section \<open>The runtime: timeouts, clock, outbound messages\<close>

text \<open>
  Two closures are ever handed to \<open>setTimeout\<close>: the one of \<open>scheduleTrackAdvance\<close>
  (it calls \<open>advanceToNextTrack\<close> and then deletes the lobby's entry of
  \<open>lobbyAdvanceTimers\<close>) and the one of the \<open>finally\<close> block of \<open>advanceToNextTrack\<close>
  (it deletes the lobby's lock). Both close over the lobby id only, as far as
  state is concerned.
\<close>

datatype callback = AdvanceCallback string | UnlockCallback string

record Timeout =
  handle :: nat
  fireAt :: int
  callback :: callback

text \<open>
  The texts sent with \<open>erro_lobby\<close>, in the order of the source:
  "Nome de usuario invalido.", "ID do lobby invalido.", "O lobby nao foi encontrado.",
  "Voce nao esta em nenhum lobby.", "Apenas DJs podem adicionar musicas.",
  "Esta musica ja esta na fila.".
\<close>

datatype erro = NomeInvalido | IdInvalido | LobbyNaoEncontrado | SemLobby | ApenasDJs | JaNaFila

datatype message =
    erro_lobby erro
  | lobby_criado Lobby
  | lobby_entrou Lobby
  | usuario_entrou User
  | usuario_saiu User
  | fila_atualizada "Track list"

text \<open>
  \<open>socket.emit\<close> reaches one socket, \<open>io.to(room).emit\<close> every socket of a room,
  \<open>socket.to(room).emit\<close> every socket of the room but the sender.
\<close>

datatype target = ToSocket string | ToRoom string | ToRoomExcept string string

record Server =
  lobbies :: "Lobby list"
  lobbyAdvanceTimers :: "string \<rightharpoonup> nat"
  lobbyProcessingLocks :: "string \<rightharpoonup> bool"
  timeouts :: "Timeout list"
  nextHandle :: nat
  now :: int
  ticks :: "int list"
  emitted :: "(target \<times> message) list"

text \<open>
  \<open>lobbies\<close> is a JavaScript object keyed by lobby id. Its only assignment stores a
  lobby under the lobby's own \<open>id\<close>, so the object is modelled as the list of its
  values in insertion order, which is the order \<open>for ... in\<close> visits them (the keys
  are UUIDs, never integer-like). \<open>timeouts\<close> is the set of timeouts the event loop
  holds: created by \<open>setTimeout\<close>, dropped by \<open>clearTimeout\<close> or by firing.
  \<open>emitted\<close> is the log of everything sent, oldest first.

  \<open>setTimeout\<close> is Node's: the timeout is due \<open>delay\<close> milliseconds after the
  current time, where a delay below 1 or above \<open>TIMEOUT_MAX\<close> (\<open>2^31 - 1\<close> ms, some 25
  days) counts as 1; its handle is a fresh number.

  \<open>Date.now()\<close> reads the wall clock. Time may pass between two reads inside one
  handler: \<open>ticks\<close> lists the milliseconds that pass before each of the coming reads
  (none passes once the list is used up).
\<close>

definition initial :: Server where
  "initial = \<lparr>lobbies = [], lobbyAdvanceTimers = Map.empty, lobbyProcessingLocks = Map.empty,
     timeouts = [], nextHandle = 0, now = 1, ticks = [], emitted = []\<rparr>"

definition Date_now :: "Server \<Rightarrow> int \<times> Server" where
  "Date_now s = (case ticks s of
       [] \<Rightarrow> (now s, s)
     | d # ds \<Rightarrow> (now s + d, s\<lparr>now := now s + d, ticks := ds\<rparr>))"

definition TIMEOUT_MAX :: int where
  "TIMEOUT_MAX = 2147483647"

definition setTimeout :: "callback \<Rightarrow> int \<Rightarrow> Server \<Rightarrow> nat \<times> Server" where
  "setTimeout cb delay s =
     (nextHandle s,
      s\<lparr>timeouts := timeouts s @
           [\<lparr>handle = nextHandle s,
             fireAt = now s + (if 1 \<le> delay \<and> delay \<le> TIMEOUT_MAX then delay else 1),
             callback = cb\<rparr>],
        nextHandle := Suc (nextHandle s)\<rparr>)"

definition clearTimeout :: "nat \<Rightarrow> Server \<Rightarrow> Server" where
  "clearTimeout h s = s\<lparr>timeouts := filter (\<lambda>t. handle t \<noteq> h) (timeouts s)\<rparr>"

definition emit :: "target \<Rightarrow> message \<Rightarrow> Server \<Rightarrow> Server" where
  "emit to m s = s\<lparr>emitted := emitted s @ [(to, m)]\<rparr>"

section \<open>Access to a lobby\<close>

definition getLobby :: "string \<Rightarrow> Server \<Rightarrow> Lobby option" where
  "getLobby lobbyId s = find (\<lambda>l. lobby_id l = lobbyId) (lobbies s)"

text \<open>In-place mutation of the lobby object stored under an id.\<close>

definition updLobby :: "string \<Rightarrow> (Lobby \<Rightarrow> Lobby) \<Rightarrow> Server \<Rightarrow> Server" where
  "updLobby lobbyId f s =
     s\<lparr>lobbies := map (\<lambda>l. if lobby_id l = lobbyId then f l else l) (lobbies s)\<rparr>"

definition queueOf :: "string \<Rightarrow> Server \<Rightarrow> Track list" where
  "queueOf lobbyId s = (case getLobby lobbyId s of None \<Rightarrow> [] | Some l \<Rightarrow> queue l)"

definition usersOf :: "string \<Rightarrow> Server \<Rightarrow> User list" where
  "usersOf lobbyId s = (case getLobby lobbyId s of None \<Rightarrow> [] | Some l \<Rightarrow> users l)"

text \<open>In-place mutation of the track object at the head of a lobby's queue.\<close>

definition updHead :: "string \<Rightarrow> (Track \<Rightarrow> Track) \<Rightarrow> Server \<Rightarrow> Server" where
  "updHead lobbyId f s =
     updLobby lobbyId (\<lambda>l. case queue l of [] \<Rightarrow> l | t # ts \<Rightarrow> l\<lparr>queue := f t # ts\<rparr>) s"

fun findLobbyAndUser :: "string \<Rightarrow> Lobby list \<Rightarrow> (Lobby \<times> User) option" where
  "findLobbyAndUser socketId [] = None"
| "findLobbyAndUser socketId (l # ls) =
     (case find (\<lambda>u. user_id u = socketId) (users l) of
        Some user \<Rightarrow> Some (l, user)
      | None \<Rightarrow> findLobbyAndUser socketId ls)"

section \<open>scheduleTrackAdvance and advanceToNextTrack\<close>

text \<open>
  \<open>scheduleTrackAdvance(lobbyId, track)\<close> mutates the track object it is given. At
  each of its three call sites that object is the head of the queue of lobby
  \<open>lobbyId\<close> (\<open>lobby.queue[0]\<close>, or the track just pushed onto an empty queue), so
  the model takes the lobby id and works on the head of that lobby's queue.

  \<open>cancelStored\<close> is the first block of the function: clear and forget the stored
  timer. \<open>noDuration\<close> and \<open>noStartTime\<close> are the two truthiness tests
  \<open>!track.duration || track.duration <= 0\<close> and \<open>!track.startTime\<close>.
\<close>

definition cancelStored :: "string \<Rightarrow> Server \<Rightarrow> Server" where
  "cancelStored lobbyId s = (case lobbyAdvanceTimers s lobbyId of
       None \<Rightarrow> s
     | Some existingTimer \<Rightarrow>
         (clearTimeout existingTimer s)\<lparr>lobbyAdvanceTimers := (lobbyAdvanceTimers s)(lobbyId := None)\<rparr>)"

definition noDuration :: "Track \<Rightarrow> bool" where
  "noDuration track = (case duration track of None \<Rightarrow> True | Some d \<Rightarrow> d = 0 \<or> d \<le> 0)"

definition noStartTime :: "Track \<Rightarrow> bool" where
  "noStartTime track = (case startTime track of None \<Rightarrow> True | Some t \<Rightarrow> t = 0)"

definition storeTimer :: "string \<Rightarrow> int \<Rightarrow> Server \<Rightarrow> Server" where
  "storeTimer lobbyId remaining s = (case setTimeout (AdvanceCallback lobbyId) remaining s of
       (timer, s') \<Rightarrow> s'\<lparr>lobbyAdvanceTimers := (lobbyAdvanceTimers s')(lobbyId \<mapsto> timer)\<rparr>)"

text \<open>
  \<open>arming\<close> is \<open>scheduleTrackAdvance\<close> up to the computation of \<open>remaining\<close>: it
  returns \<open>remaining\<close> and the state reached there.
\<close>

definition arming :: "string \<Rightarrow> Track \<Rightarrow> Server \<Rightarrow> int \<times> Server" where
  "arming lobbyId track s =
     (let s1 = cancelStored lobbyId s;
          s2 = (if noDuration track
                then updHead lobbyId (\<lambda>t. t\<lparr>duration := Some 240\<rparr>) s1
                else s1);
          d = (if noDuration track then 240 else the (duration track));
          (st, s3) = (if noStartTime track
                      then (case Date_now s2 of
                              (t, s') \<Rightarrow> (t, updHead lobbyId (\<lambda>h. h\<lparr>startTime := Some t\<rparr>) s'))
                      else (the (startTime track), s2));
          durationMs = d * 1000;
          (t, s4) = Date_now s3;
          elapsed = t - st;
          remaining = max 0 (durationMs - elapsed)
      in (remaining, s4))"

function scheduleTrackAdvance :: "string \<Rightarrow> Server \<Rightarrow> Server"
  and advanceToNextTrack :: "string \<Rightarrow> Server \<Rightarrow> Server" where
  "scheduleTrackAdvance lobbyId s =
     (case queueOf lobbyId s of
        [] \<Rightarrow> s
      | track # rest \<Rightarrow>
          (case arming lobbyId track s of
             (remaining, s') \<Rightarrow>
               if remaining \<le> 0 then advanceToNextTrack lobbyId s'
               else storeTimer lobbyId remaining s'))"
| "advanceToNextTrack lobbyId s =
     (case getLobby lobbyId s of
        None \<Rightarrow> s
      | Some lobby \<Rightarrow>
          if lobbyProcessingLocks s lobbyId = Some True then s
          else if length (queue lobby) = 0 then s
          else
            (let s1 = s\<lparr>lobbyProcessingLocks := (lobbyProcessingLocks s)(lobbyId \<mapsto> True)\<rparr>;
                 s2 = updLobby lobbyId (\<lambda>l. l\<lparr>queue := drop 1 (queue l)\<rparr>) s1;
                 s3 = (if length (queueOf lobbyId s2) > 0
                       then (case Date_now s2 of
                               (t, s') \<Rightarrow> scheduleTrackAdvance lobbyId
                                  (updHead lobbyId (\<lambda>h. h\<lparr>startTime := Some t\<rparr>) s'))
                       else s2);
                 s4 = emit (ToRoom lobbyId) (fila_atualizada (queueOf lobbyId s3)) s3
             in snd (setTimeout (UnlockCallback lobbyId) 1000 s4)))"
  by pat_completeness auto

termination
  apply (relation "measure (\<lambda>x. case x of
      Inl (lobbyId, s) \<Rightarrow> (if lobbyProcessingLocks s lobbyId = Some True then 1 else 3)
    | Inr (lobbyId, s) \<Rightarrow> (if lobbyProcessingLocks s lobbyId = Some True then 0 else 2))")
    apply simp
   apply (auto simp: arming_def Let_def cancelStored_def updHead_def updLobby_def Date_now_def
        clearTimeout_def split: option.splits list.splits if_splits prod.splits)
  done

declare scheduleTrackAdvance.simps [simp del] advanceToNextTrack.simps [simp del]

section \<open>The socket handlers\<close>

text \<open>
  A string is its UTF-8 bytes. \<open>trim\<close> is \<open>String.prototype.trim\<close>: it strips, at
  both ends, the white space and line terminator characters of ECMAScript, listed
  in \<open>whiteSpace\<close> by their encodings: U+0009 to U+000D, U+0020, U+00A0, U+1680,
  U+2000 to U+200A, U+2028, U+2029, U+202F, U+205F, U+3000 and U+FEFF.
  \<open>blank userName\<close> is the test \<open>!userName || !userName.trim()\<close>.
\<close>

definition whiteSpace :: "string list" where
  "whiteSpace =
     [[CHR 0x09], [CHR 0x0A], [CHR 0x0B], [CHR 0x0C], [CHR 0x0D], [CHR 0x20],
      [CHR 0xC2, CHR 0xA0],
      [CHR 0xE1, CHR 0x9A, CHR 0x80],
      [CHR 0xE2, CHR 0x80, CHR 0x80], [CHR 0xE2, CHR 0x80, CHR 0x81],
      [CHR 0xE2, CHR 0x80, CHR 0x82], [CHR 0xE2, CHR 0x80, CHR 0x83],
      [CHR 0xE2, CHR 0x80, CHR 0x84], [CHR 0xE2, CHR 0x80, CHR 0x85],
      [CHR 0xE2, CHR 0x80, CHR 0x86], [CHR 0xE2, CHR 0x80, CHR 0x87],
      [CHR 0xE2, CHR 0x80, CHR 0x88], [CHR 0xE2, CHR 0x80, CHR 0x89],
      [CHR 0xE2, CHR 0x80, CHR 0x8A],
      [CHR 0xE2, CHR 0x80, CHR 0xA8], [CHR 0xE2, CHR 0x80, CHR 0xA9],
      [CHR 0xE2, CHR 0x80, CHR 0xAF],
      [CHR 0xE2, CHR 0x81, CHR 0x9F],
      [CHR 0xE3, CHR 0x80, CHR 0x80],
      [CHR 0xEF, CHR 0xBB, CHR 0xBF]]"

text \<open>\<open>stripLeading ws str\<close> removes from the front of \<open>str\<close> every run of sequences of \<open>ws\<close>.\<close>

function stripLeading :: "string list \<Rightarrow> string \<Rightarrow> string" where
  "stripLeading ws str =
     (case find (\<lambda>w. w \<noteq> [] \<and> take (length w) str = w) ws of
        None \<Rightarrow> str
      | Some w \<Rightarrow> stripLeading ws (drop (length w) str))"
  by pat_completeness auto

termination
proof (relation "measure (\<lambda>(ws, str). length str)")
  show "wf (measure (\<lambda>(ws, str). length str))" by simp
next
  fix ws :: "string list" and str w :: string
  assume "find (\<lambda>w. w \<noteq> [] \<and> take (length w) str = w) ws = Some w"
  then have w: "w \<noteq> []" "take (length w) str = w" by (auto simp: find_Some_iff)
  then have "length (take (length w) str) = length w" by simp
  then have "length w \<le> length str" by simp
  with w(1) show "((ws, drop (length w) str), (ws, str)) \<in> measure (\<lambda>(ws, str). length str)"
    by (cases w) auto
qed

declare stripLeading.simps [simp del]

definition trim :: "string \<Rightarrow> string" where
  "trim str = rev (stripLeading (map rev whiteSpace) (rev (stripLeading whiteSpace str)))"

definition blank :: "string \<Rightarrow> bool" where
  "blank str = (str = [] \<or> trim str = [])"

text \<open>
  \<open>lobbies[lobbyId] = lobby\<close>: a new key is added last, an existing key keeps its
  place. The id comes from \<open>uuidv4()\<close>; the model takes it as an argument.
\<close>

definition assignLobby :: "Lobby \<Rightarrow> Server \<Rightarrow> Server" where
  "assignLobby lobby s =
     (if getLobby (lobby_id lobby) s = None then s\<lparr>lobbies := lobbies s @ [lobby]\<rparr>
      else s\<lparr>lobbies := map (\<lambda>l. if lobby_id l = lobby_id lobby then lobby else l) (lobbies s)\<rparr>)"

definition criar_lobby :: "string \<Rightarrow> string \<Rightarrow> string \<Rightarrow> Server \<Rightarrow> Server" where
  "criar_lobby socketId uuid userName s =
     (if blank userName then emit (ToSocket socketId) (erro_lobby NomeInvalido) s
      else
        (let lobbyId = uuid;
             newUser = \<lparr>user_id = socketId, name = trim userName, role = dj\<rparr>;
             lobby = \<lparr>lobby_id = lobbyId, users = [newUser], queue = []\<rparr>
         in emit (ToSocket socketId) (lobby_criado lobby) (assignLobby lobby s)))"

text \<open>
  \<open>lobbies[key]\<close> on a plain object also finds the keys inherited from
  \<open>Object.prototype\<close>, which hold functions (or the prototype itself), not lobbies.
  \<open>entrar_lobby\<close> is the one place where a client chooses the key: with such a key
  the test \<open>if (lobby)\<close> succeeds and \<open>lobby.users.filter\<close> throws a TypeError, which
  the server's \<open>uncaughtException\<close> handler logs, so that the handler ends with
  nothing changed and nothing sent. Every other lookup is by the id of a lobby
  found in \<open>lobbies\<close>.
\<close>

definition inheritedKeys :: "string list" where
  "inheritedKeys =
     [''constructor'', ''__proto__'', ''hasOwnProperty'', ''isPrototypeOf'',
      ''propertyIsEnumerable'', ''toLocaleString'', ''toString'', ''valueOf'',
      ''__defineGetter__'', ''__defineSetter__'', ''__lookupGetter__'', ''__lookupSetter__'']"

definition entrar_lobby :: "string \<Rightarrow> string \<Rightarrow> string \<Rightarrow> Server \<Rightarrow> Server" where
  "entrar_lobby socketId lobbyId userName s =
     (if blank lobbyId then emit (ToSocket socketId) (erro_lobby IdInvalido) s
      else if blank userName then emit (ToSocket socketId) (erro_lobby NomeInvalido) s
      else
        (case getLobby (trim lobbyId) s of
           Some lobby \<Rightarrow>
             (let djCount = length (filter (\<lambda>u. role u = dj) (users lobby));
                  newRole = (if djCount < 2 then dj else spectator);
                  newUser = \<lparr>user_id = socketId, name = trim userName, role = newRole\<rparr>;
                  s1 = updLobby (lobby_id lobby) (\<lambda>l. l\<lparr>users := users l @ [newUser]\<rparr>) s;
                  s2 = emit (ToRoomExcept lobbyId socketId) (usuario_entrou newUser) s1
              in emit (ToSocket socketId)
                   (lobby_entrou (lobby\<lparr>users := users lobby @ [newUser]\<rparr>)) s2)
         | None \<Rightarrow>
             if trim lobbyId \<in> set inheritedKeys then s
             else emit (ToSocket socketId) (erro_lobby LobbyNaoEncontrado) s))"

definition adicionar_faixa :: "string \<Rightarrow> Track \<Rightarrow> Server \<Rightarrow> Server" where
  "adicionar_faixa socketId track s =
     (case findLobbyAndUser socketId (lobbies s) of
        None \<Rightarrow> emit (ToSocket socketId) (erro_lobby SemLobby) s
      | Some (lobby, user) \<Rightarrow>
          if role user \<noteq> dj then emit (ToSocket socketId) (erro_lobby ApenasDJs) s
          else if list_ex (\<lambda>t. track_id t = track_id track) (queue lobby)
          then emit (ToSocket socketId) (erro_lobby JaNaFila) s
          else
            (let s1 = updLobby (lobby_id lobby) (\<lambda>l. l\<lparr>queue := queue l @ [track]\<rparr>) s;
                 s2 = (if length (queueOf (lobby_id lobby) s1) = 1
                       then (case Date_now s1 of
                               (t, s') \<Rightarrow> scheduleTrackAdvance (lobby_id lobby)
                                  (updHead (lobby_id lobby) (\<lambda>h. h\<lparr>startTime := Some t\<rparr>) s'))
                       else s1)
             in emit (ToRoom (lobby_id lobby)) (fila_atualizada (queueOf (lobby_id lobby) s2)) s2))"

definition musica_terminou :: "string \<Rightarrow> Server \<Rightarrow> Server" where
  "musica_terminou socketId s =
     (case findLobbyAndUser socketId (lobbies s) of
        None \<Rightarrow> s
      | Some (lobby, user) \<Rightarrow>
          if lobbyAdvanceTimers s (lobby_id lobby) = None
          then advanceToNextTrack (lobby_id lobby) s
          else s)"

definition remover_faixa :: "string \<Rightarrow> string \<Rightarrow> Server \<Rightarrow> Server" where
  "remover_faixa socketId trackId s =
     (case findLobbyAndUser socketId (lobbies s) of
        None \<Rightarrow> s
      | Some (lobby, user) \<Rightarrow>
          if role user \<noteq> dj then s
          else
            (let wasFirstTrack = (case queue lobby of [] \<Rightarrow> False | t # ts \<Rightarrow> track_id t = trackId);
                 s1 = updLobby (lobby_id lobby)
                        (\<lambda>l. l\<lparr>queue := filter (\<lambda>track. track_id track \<noteq> trackId) (queue l)\<rparr>) s;
                 s2 = (if wasFirstTrack \<and> length (queueOf (lobby_id lobby) s1) > 0
                       then (case Date_now s1 of
                               (t, s') \<Rightarrow>
                                 (let s'' = updHead (lobby_id lobby) (\<lambda>h. h\<lparr>startTime := Some t\<rparr>) s';
                                      s''' = (case lobbyAdvanceTimers s'' (lobby_id lobby) of
                                                None \<Rightarrow> s''
                                              | Some existingTimer \<Rightarrow> clearTimeout existingTimer s'')
                                  in scheduleTrackAdvance (lobby_id lobby) s'''))
                       else s1)
             in emit (ToRoom (lobby_id lobby)) (fila_atualizada (queueOf (lobby_id lobby) s2)) s2))"

definition disconnect :: "string \<Rightarrow> Server \<Rightarrow> Server" where
  "disconnect socketId s =
     (case findLobbyAndUser socketId (lobbies s) of
        None \<Rightarrow> s
      | Some (lobby, user) \<Rightarrow>
          (let remaining = filter (\<lambda>u. user_id u \<noteq> user_id user) (users lobby);
               s1 = updLobby (lobby_id lobby) (\<lambda>l. l\<lparr>users := remaining\<rparr>) s;
               s2 = emit (ToRoomExcept (lobby_id lobby) socketId) (usuario_saiu user) s1;
               s3 = (case lobbyAdvanceTimers s2 (lobby_id lobby) of
                       None \<Rightarrow> s2
                     | Some timer \<Rightarrow>
                         (clearTimeout timer s2)\<lparr>lobbyAdvanceTimers :=
                            (lobbyAdvanceTimers s2)(lobby_id lobby := None)\<rparr>)
           in if length remaining = 0
              then s3\<lparr>lobbies := filter (\<lambda>l. lobby_id l \<noteq> lobby_id lobby) (lobbies s3)\<rparr>
              else s3))"

section \<open>The event loop\<close>

text \<open>
  A timeout fires once its time has come: the event loop drops it from its set and
  runs the closure. \<open>fireTimeout\<close> does nothing for a handle that is not pending.
\<close>

definition runCallback :: "callback \<Rightarrow> Server \<Rightarrow> Server" where
  "runCallback cb s = (case cb of
       AdvanceCallback lobbyId \<Rightarrow>
         (let s1 = advanceToNextTrack lobbyId s
          in s1\<lparr>lobbyAdvanceTimers := (lobbyAdvanceTimers s1)(lobbyId := None)\<rparr>)
     | UnlockCallback lobbyId \<Rightarrow>
         s\<lparr>lobbyProcessingLocks := (lobbyProcessingLocks s)(lobbyId := None)\<rparr>)"

definition fireTimeout :: "nat \<Rightarrow> Server \<Rightarrow> Server" where
  "fireTimeout h s = (case find (\<lambda>t. handle t = h) (timeouts s) of
       None \<Rightarrow> s
     | Some t \<Rightarrow> runCallback (callback t)
         (s\<lparr>timeouts := filter (\<lambda>x. handle x \<noteq> h) (timeouts s), now := max (now s) (fireAt t)\<rparr>))"

datatype event =
    CriarLobby string string string
  | EntrarLobby string string string
  | AdicionarFaixa string Track
  | MusicaTerminou string
  | RemoverFaixa string string
  | Disconnect string
  | Fire nat
  | Wait "int list"

text \<open>
  \<open>Wait ds\<close> is the passing of time between two events: it refills the delays
  that the coming clock reads will see.
\<close>

fun step :: "event \<Rightarrow> Server \<Rightarrow> Server" where
  "step (CriarLobby socketId uuid userName) s = criar_lobby socketId uuid userName s"
| "step (EntrarLobby socketId lobbyId userName) s = entrar_lobby socketId lobbyId userName s"
| "step (AdicionarFaixa socketId track) s = adicionar_faixa socketId track s"
| "step (MusicaTerminou socketId) s = musica_terminou socketId s"
| "step (RemoverFaixa socketId trackId) s = remover_faixa socketId trackId s"
| "step (Disconnect socketId) s = disconnect socketId s"
| "step (Fire h) s = fireTimeout h s"
| "step (Wait ds) s = s\<lparr>ticks := ds\<rparr>"

fun run :: "event list \<Rightarrow> Server \<Rightarrow> Server" where
  "run [] s = s"
| "run (e # es) s = run es (step e s)"

section \<open>Notions used in the statements\<close>

text \<open>
  \<open>shape\<close> is what remains of the lobbies when only identities are kept: per lobby
  its id, its users and the catalog ids of its queue. \<open>dropHead\<close> is the dequeue
  step of \<open>advanceToNextTrack\<close> (\<open>lobby.queue.slice(1)\<close>) on its own.
\<close>

definition lshape :: "Lobby \<Rightarrow> string \<times> User list \<times> string list" where
  "lshape l = (lobby_id l, users l, map track_id (queue l))"

definition shape :: "Server \<Rightarrow> (string \<times> User list \<times> string list) list" where
  "shape s = map lshape (lobbies s)"

definition dropHead :: "string \<Rightarrow> Server \<Rightarrow> Server" where
  "dropHead lobbyId s = updLobby lobbyId (\<lambda>l. l\<lparr>queue := drop 1 (queue l)\<rparr>) s"

text \<open>No two lobbies share an id: \<open>lobbies\<close> is an object, a key occurs once.\<close>

definition distinctLobbies :: "Server \<Rightarrow> bool" where
  "distinctLobbies s = distinct (map lobby_id (lobbies s))"

definition uniqueTrackIds :: "Server \<Rightarrow> bool" where
  "uniqueTrackIds s = list_all (\<lambda>l. distinct (map track_id (queue l))) (lobbies s)"

text \<open>The timeouts the event loop holds that will call \<open>advanceToNextTrack\<close> for a lobby.\<close>

definition pendingAdvances :: "string \<Rightarrow> Server \<Rightarrow> Timeout list" where
  "pendingAdvances lobbyId s = filter (\<lambda>t. callback t = AdvanceCallback lobbyId) (timeouts s)"

text \<open>The first two users of the list are dj, the others spectator.\<close>

definition rolesByJoinOrder :: "Lobby \<Rightarrow> bool" where
  "rolesByJoinOrder l =
     (map role (users l) = replicate (min 2 (length (users l))) dj
                           @ replicate (length (users l) - 2) spectator)"

text \<open>Who is in which lobby.\<close>

definition members :: "Server \<Rightarrow> (string \<times> User list) list" where
  "members s = map (\<lambda>l. (lobby_id l, users l)) (lobbies s)"

definition rolesInJoinOrder :: "Server \<Rightarrow> bool" where
  "rolesInJoinOrder s = list_all rolesByJoinOrder (lobbies s)"

fun isDisconnect :: "event \<Rightarrow> bool" where
  "isDisconnect (Disconnect socketId) = True"
| "isDisconnect e = False"









text \<open>A track as a client sends it: no \<open>startTime\<close>, a duration or none.\<close>

definition mkTrack :: "string \<Rightarrow> int option \<Rightarrow> Track" where
  "mkTrack i d = \<lparr>track_id = i, title = ''t'', artist = ''a'', uri = ''u'', albumArt = None,
     previewUrl = None, source = Some youtube, streamUrl = None, startTime = None, duration = d\<rparr>"

text \<open>
  An event clears the guard of a lobby when it fires a pending unlock closure of
  that lobby. A run stays inside the cool-down window of a lobby as long as no
  such event occurs in it.
\<close>

definition clearsGuard :: "string \<Rightarrow> event \<Rightarrow> Server \<Rightarrow> bool" where
  "clearsGuard a e s = (case e of
       Fire h \<Rightarrow> (case find (\<lambda>t. handle t = h) (timeouts s) of
                   None \<Rightarrow> False
                 | Some t \<Rightarrow> callback t = UnlockCallback a)
     | _ \<Rightarrow> False)"

fun withinCooldown :: "string \<Rightarrow> event list \<Rightarrow> Server \<Rightarrow> bool" where
  "withinCooldown a [] s = True"
| "withinCooldown a (e # es) s = (\<not> clearsGuard a e s \<and> withinCooldown a es (step e s))"

text \<open>
  Sample runs: Alice creates lobby L and queues T1 (5 seconds) and T2 (no
  duration given).
\<close>

definition twoTracks :: Server where
  "twoTracks = run [CriarLobby ''A'' ''L'' ''Alice'',
                    AdicionarFaixa ''A'' (mkTrack ''T1'' (Some 5)),
                    AdicionarFaixa ''A'' (mkTrack ''T2'' None)] initial"

text \<open>
  \<open>shortSecond\<close>: T2 lasts one second, T1's timer fires, and one second passes
  between the clock read that stamps T2 and the one that computes its remaining
  time. \<open>threeTracks\<close>: T1's timer fires with T2 and T3 waiting, the guard is
  released a second later. \<open>twoUsers\<close>: Bob has joined Alice and T1 (30 seconds)
  plays. \<open>threeUsers\<close>: Carol has joined as well. \<open>oneTrack\<close>: Alice alone, T1 (10
  seconds) plays. \<open>rejoin\<close>: Alice, Bob and Carol are in, Alice leaves, Dave joins.
\<close>

definition shortSecond :: Server where
  "shortSecond = run [CriarLobby ''A'' ''L'' ''Alice'',
                      AdicionarFaixa ''A'' (mkTrack ''T1'' (Some 5)),
                      AdicionarFaixa ''A'' (mkTrack ''T2'' (Some 1)),
                      Wait [0, 1000],
                      Fire 0] initial"

definition threeTracks :: Server where
  "threeTracks = run [CriarLobby ''A'' ''L'' ''Alice'',
                      AdicionarFaixa ''A'' (mkTrack ''T1'' (Some 5)),
                      AdicionarFaixa ''A'' (mkTrack ''T2'' None),
                      AdicionarFaixa ''A'' (mkTrack ''T3'' None),
                      Fire 0,
                      Fire 2] initial"

definition twoUsers :: Server where
  "twoUsers = run [CriarLobby ''A'' ''L'' ''Alice'',
                   EntrarLobby ''B'' ''L'' ''Bob'',
                   AdicionarFaixa ''A'' (mkTrack ''T1'' (Some 30))] initial"

definition threeUsers :: Server where
  "threeUsers = run [EntrarLobby ''C'' ''L'' ''Carol''] twoUsers"

definition oneTrack :: Server where
  "oneTrack = run [CriarLobby ''A'' ''L'' ''Alice'',
                   AdicionarFaixa ''A'' (mkTrack ''T1'' (Some 10))] initial"

definition rejoin :: Server where
  "rejoin = run [CriarLobby ''A'' ''L'' ''Alice'',
                 EntrarLobby ''B'' ''L'' ''Bob'',
                 EntrarLobby ''C'' ''L'' ''Carol'',
                 Disconnect ''A'',
                 EntrarLobby ''D'' ''L'' ''Dave''] initial"


text \<open>
  \<open>secondPlaying\<close>: from \<open>twoTracks\<close>, T1's timer fires and the guard is released
  a second later; T2 plays. \<open>slowClock\<close>: Alice alone in lobby L, nothing queued;
  five seconds will pass between the next two clock reads. \<open>staleTimers\<close>: from
  \<open>threeTracks\<close>, Alice removes T2 and then T3, the timer once armed for T2 fires,
  and Alice queues T4.
\<close>

definition secondPlaying :: Server where
  "secondPlaying = run [Fire 0, Fire 2] twoTracks"


definition staleTimers :: Server where
  "staleTimers = run [RemoverFaixa ''A'' ''T2'', RemoverFaixa ''A'' ''T3'', Fire 1,
                      AdicionarFaixa ''A'' (mkTrack ''T4'' None)] threeTracks"


section \<open>Basic facts about the runtime operations\<close>

lemmas prim_defs = Date_now_def setTimeout_def clearTimeout_def emit_def updLobby_def updHead_def
  cancelStored_def storeTimer_def

lemma lobbies_prims [simp]:
  "lobbies (snd (Date_now s)) = lobbies s"
  "lobbies (snd (setTimeout cb d s)) = lobbies s"
  "lobbies (clearTimeout h s) = lobbies s"
  "lobbies (emit to m s) = lobbies s"
  "lobbies (cancelStored lobbyId s) = lobbies s"
  "lobbies (storeTimer lobbyId r s) = lobbies s"
  by (simp_all add: prim_defs split: list.splits option.splits)

lemma shape_cong: "lobbies s' = lobbies s \<Longrightarrow> shape s' = shape s"
  by (simp add: shape_def)

lemma shape_updHead:
  "(\<And>t. track_id (f t) = track_id t) \<Longrightarrow> shape (updHead lobbyId f s) = shape s"
  by (auto simp: shape_def lshape_def updHead_def updLobby_def split: list.splits)

lemma find_upd:
  "(\<And>l. lobby_id (f l) = lobby_id l) \<Longrightarrow>
   find (\<lambda>l. lobby_id l = a) (map (\<lambda>l. if lobby_id l = b then f l else l) ls) =
     (if a = b then map_option f (find (\<lambda>l. lobby_id l = a) ls)
      else find (\<lambda>l. lobby_id l = a) ls)"
  by (induction ls) auto

lemma getLobby_updLobby:
  "(\<And>l. lobby_id (f l) = lobby_id l) \<Longrightarrow>
   getLobby a (updLobby b f s) = (if a = b then map_option f (getLobby a s) else getLobby a s)"
  by (simp add: getLobby_def updLobby_def find_upd)

lemma queueOf_dropHead: "queueOf lobbyId (dropHead lobbyId s) = drop 1 (queueOf lobbyId s)"
  by (simp add: queueOf_def dropHead_def getLobby_updLobby split: option.splits)

lemma shape_dropHead:
  "shape (dropHead a s) = map (\<lambda>(i, u, q). if i = a then (i, u, drop 1 q) else (i, u, q)) (shape s)"
  by (simp add: shape_def lshape_def dropHead_def updLobby_def drop_map)

lemma shape_ids_aux:
  "map lshape ls' = map lshape ls \<Longrightarrow>
   map_option (\<lambda>l. map track_id (queue l)) (find (\<lambda>l. lobby_id l = a) ls') =
   map_option (\<lambda>l. map track_id (queue l)) (find (\<lambda>l. lobby_id l = a) ls)"
proof (induction ls arbitrary: ls')
  case Nil
  then show ?case by simp
next
  case (Cons l ls)
  from Cons.prems obtain l' ls'' where ls': "ls' = l' # ls''" by (cases ls') simp_all
  with Cons.prems have h: "lshape l' = lshape l" and t: "map lshape ls'' = map lshape ls"
    by simp_all
  from Cons.IH [OF t] h show ?case by (simp add: ls' lshape_def)
qed

lemma shape_ids:
  "shape s' = shape s \<Longrightarrow> map track_id (queueOf a s') = map track_id (queueOf a s)"
  using shape_ids_aux [of "lobbies s'" "lobbies s" a]
  by (auto simp: shape_def queueOf_def getLobby_def split: option.splits)

section \<open>The guard: what a call of advanceToNextTrack can do\<close>

lemma arming_locks:
  "lobbyProcessingLocks (snd (arming lobbyId track s)) = lobbyProcessingLocks s"
  by (simp add: arming_def Let_def prim_defs split: option.splits list.splits prod.splits)

lemma shape_arming: "shape (snd (arming lobbyId track s)) = shape s"
  by (simp add: arming_def Let_def split_beta shape_cong [of "snd (Date_now _)"]
      shape_cong [of "cancelStored _ _"] shape_updHead)

lemma advance_locked:
  "lobbyProcessingLocks s lobbyId = Some True \<Longrightarrow> advanceToNextTrack lobbyId s = s"
  by (simp add: advanceToNextTrack.simps split: option.splits)

text \<open>
  Under a set guard the immediate advance of \<open>scheduleTrackAdvance\<close> does nothing,
  which leaves a form of the function without recursion.
\<close>

lemma schedule_locked:
  "lobbyProcessingLocks s lobbyId = Some True \<Longrightarrow>
   scheduleTrackAdvance lobbyId s =
     (case queueOf lobbyId s of
        [] \<Rightarrow> s
      | track # rest \<Rightarrow>
          (case arming lobbyId track s of
             (remaining, s') \<Rightarrow> if remaining \<le> 0 then s' else storeTimer lobbyId remaining s'))"
  apply (subst scheduleTrackAdvance.simps)
  apply (auto split: list.splits prod.splits)
  apply (rule advance_locked)
  apply (metis arming_locks snd_conv)
  done

lemma shape_schedule_locked:
  "lobbyProcessingLocks s lobbyId = Some True \<Longrightarrow> shape (scheduleTrackAdvance lobbyId s) = shape s"
  apply (simp add: schedule_locked split: list.splits prod.splits)
  apply (auto simp: shape_cong [of "storeTimer _ _ _"])
   apply (metis shape_arming snd_conv)+
  done

lemma locks_schedule_locked:
  "lobbyProcessingLocks s lobbyId = Some True \<Longrightarrow>
   lobbyProcessingLocks (scheduleTrackAdvance lobbyId s) = lobbyProcessingLocks s"
  apply (simp add: schedule_locked split: list.splits prod.splits)
  apply (auto simp: storeTimer_def setTimeout_def)
   apply (metis arming_locks snd_conv)+
  done

text \<open>
  A call of \<open>advanceToNextTrack\<close> either changes nothing, or it found the guard
  clear and the queue non-empty, sets the guard and removes exactly the head.
\<close>

lemma advance_cases:
  "advanceToNextTrack lobbyId s = s \<or>
   (lobbyProcessingLocks s lobbyId \<noteq> Some True \<and> queueOf lobbyId s \<noteq> [] \<and>
    lobbyProcessingLocks (advanceToNextTrack lobbyId s) = (lobbyProcessingLocks s)(lobbyId \<mapsto> True) \<and>
    shape (advanceToNextTrack lobbyId s) = shape (dropHead lobbyId s))"
proof (cases "getLobby lobbyId s")
  case None
  then show ?thesis by (simp add: advanceToNextTrack.simps)
next
  case (Some lobby)
  show ?thesis
  proof (cases "lobbyProcessingLocks s lobbyId = Some True \<or> queue lobby = []")
    case True
    with Some show ?thesis by (auto simp: advanceToNextTrack.simps)
  next
    case False
    define s1 where "s1 = s\<lparr>lobbyProcessingLocks := (lobbyProcessingLocks s)(lobbyId \<mapsto> True)\<rparr>"
    define s2 where "s2 = updLobby lobbyId (\<lambda>l. l\<lparr>queue := drop 1 (queue l)\<rparr>) s1"
    define s3 where "s3 = (if length (queueOf lobbyId s2) > 0
                       then (case Date_now s2 of
                               (t, s') \<Rightarrow> scheduleTrackAdvance lobbyId
                                  (updHead lobbyId (\<lambda>h. h\<lparr>startTime := Some t\<rparr>) s'))
                       else s2)"
    have adv: "advanceToNextTrack lobbyId s =
       snd (setTimeout (UnlockCallback lobbyId) 1000
              (emit (ToRoom lobbyId) (fila_atualizada (queueOf lobbyId s3)) s3))"
      using Some False by (simp add: advanceToNextTrack.simps Let_def s1_def s2_def s3_def)
    have l2: "lobbyProcessingLocks s2 = (lobbyProcessingLocks s)(lobbyId \<mapsto> True)"
      by (simp add: s2_def s1_def updLobby_def)
    have "lobbies s1 = lobbies s" by (simp add: s1_def)
    then have sh2: "shape s2 = shape (dropHead lobbyId s)"
      by (simp add: s2_def shape_def dropHead_def updLobby_def)
    have stamped: "\<And>t s'. Date_now s2 = (t, s') \<Longrightarrow>
        lobbyProcessingLocks (updHead lobbyId (\<lambda>h. h\<lparr>startTime := Some t\<rparr>) s') = lobbyProcessingLocks s2
        \<and> shape (updHead lobbyId (\<lambda>h. h\<lparr>startTime := Some t\<rparr>) s') = shape s2"
      by (auto simp: shape_updHead Date_now_def updHead_def updLobby_def shape_def lshape_def split: list.splits)
    have l3: "lobbyProcessingLocks s3 = lobbyProcessingLocks s2"
      using stamped l2 by (auto simp: s3_def locks_schedule_locked split: prod.splits)
    have sh3: "shape s3 = shape s2"
      using stamped l2 by (auto simp: s3_def shape_schedule_locked split: prod.splits)
    have "lobbyProcessingLocks (advanceToNextTrack lobbyId s) = (lobbyProcessingLocks s)(lobbyId \<mapsto> True)"
      by (simp add: adv setTimeout_def emit_def l3 l2)
    moreover have "shape (advanceToNextTrack lobbyId s) = shape (dropHead lobbyId s)"
      by (simp add: adv shape_cong [of "snd (setTimeout _ _ _)"] sh3 sh2)
    moreover have "queueOf lobbyId s \<noteq> []" using Some False by (simp add: queueOf_def)
    ultimately show ?thesis using False by simp
  qed
qed

lemma advance_idem:
  "advanceToNextTrack lobbyId (advanceToNextTrack lobbyId s) = advanceToNextTrack lobbyId s"
  using advance_cases [of lobbyId s] by (auto simp: advance_locked)

lemma advance_ids:
  "map track_id (queueOf lobbyId (advanceToNextTrack lobbyId s)) = map track_id (queueOf lobbyId s) \<or>
   map track_id (queueOf lobbyId (advanceToNextTrack lobbyId s)) = drop 1 (map track_id (queueOf lobbyId s))"
proof (cases "advanceToNextTrack lobbyId s = s")
  case True
  then show ?thesis by simp
next
  case False
  then have "shape (advanceToNextTrack lobbyId s) = shape (dropHead lobbyId s)"
    using advance_cases [of lobbyId s] by blast
  then have "map track_id (queueOf lobbyId (advanceToNextTrack lobbyId s)) =
             map track_id (queueOf lobbyId (dropHead lobbyId s))"
    by (rule shape_ids)
  then show ?thesis by (simp add: queueOf_dropHead drop_map)
qed

section \<open>What scheduleTrackAdvance and advanceToNextTrack leave unchanged\<close>

lemma shape_dropHead_cong: "shape s' = shape s \<Longrightarrow> shape (dropHead a s') = shape (dropHead a s)"
  by (simp add: shape_dropHead)

lemma advance_shape:
  "shape (advanceToNextTrack a s) = shape s \<or> shape (advanceToNextTrack a s) = shape (dropHead a s)"
  using advance_cases [of a s] by auto

lemma advance_locks:
  "lobbyProcessingLocks (advanceToNextTrack a s) = lobbyProcessingLocks s \<or>
   lobbyProcessingLocks (advanceToNextTrack a s) = (lobbyProcessingLocks s)(a \<mapsto> True)"
  using advance_cases [of a s] by auto

lemma schedule_shape:
  "shape (scheduleTrackAdvance a s) = shape s \<or> shape (scheduleTrackAdvance a s) = shape (dropHead a s)"
proof (cases "queueOf a s")
  case Nil
  then show ?thesis by (simp add: scheduleTrackAdvance.simps)
next
  case (Cons track rest)
  obtain r s' where ar: "arming a track s = (r, s')" by (cases "arming a track s")
  then have sh: "shape s' = shape s" using shape_arming [of a track s] by simp
  show ?thesis
  proof (cases "r \<le> 0")
    case True
    then have "scheduleTrackAdvance a s = advanceToNextTrack a s'"
      using Cons ar by (simp add: scheduleTrackAdvance.simps)
    then show ?thesis using advance_shape [of a s'] sh shape_dropHead_cong [OF sh, of a] by auto
  next
    case False
    then have "scheduleTrackAdvance a s = storeTimer a r s'"
      using Cons ar by (simp add: scheduleTrackAdvance.simps)
    then show ?thesis using sh by (simp add: shape_cong [of "storeTimer _ _ _"])
  qed
qed

lemma schedule_locks:
  "lobbyProcessingLocks (scheduleTrackAdvance a s) = lobbyProcessingLocks s \<or>
   lobbyProcessingLocks (scheduleTrackAdvance a s) = (lobbyProcessingLocks s)(a \<mapsto> True)"
proof (cases "queueOf a s")
  case Nil
  then show ?thesis by (simp add: scheduleTrackAdvance.simps)
next
  case (Cons track rest)
  obtain r s' where ar: "arming a track s = (r, s')" by (cases "arming a track s")
  then have lk: "lobbyProcessingLocks s' = lobbyProcessingLocks s" using arming_locks [of a track s] by simp
  show ?thesis
  proof (cases "r \<le> 0")
    case True
    then have "scheduleTrackAdvance a s = advanceToNextTrack a s'"
      using Cons ar by (simp add: scheduleTrackAdvance.simps)
    then show ?thesis using advance_locks [of a s'] lk by auto
  next
    case False
    then have "scheduleTrackAdvance a s = storeTimer a r s'"
      using Cons ar by (simp add: scheduleTrackAdvance.simps)
    then show ?thesis using lk by (simp add: storeTimer_def setTimeout_def)
  qed
qed

lemma locks_prims [simp]:
  "lobbyProcessingLocks (snd (Date_now s)) = lobbyProcessingLocks s"
  "lobbyProcessingLocks (snd (setTimeout cb d s)) = lobbyProcessingLocks s"
  "lobbyProcessingLocks (clearTimeout h s) = lobbyProcessingLocks s"
  "lobbyProcessingLocks (emit to m s) = lobbyProcessingLocks s"
  "lobbyProcessingLocks (cancelStored lobbyId s) = lobbyProcessingLocks s"
  "lobbyProcessingLocks (storeTimer lobbyId r s) = lobbyProcessingLocks s"
  "lobbyProcessingLocks (updLobby lobbyId f s) = lobbyProcessingLocks s"
  "lobbyProcessingLocks (updHead lobbyId g s) = lobbyProcessingLocks s"
  by (simp_all add: prim_defs split: list.splits option.splits)

text \<open>A set guard stays set through every handler; only the unlock closure clears it.\<close>

lemma advance_keeps_lock:
  "lobbyProcessingLocks s a = Some True \<Longrightarrow> lobbyProcessingLocks (advanceToNextTrack b s) a = Some True"
  using advance_locks [of b s] by auto

lemma schedule_keeps_lock:
  "lobbyProcessingLocks s a = Some True \<Longrightarrow> lobbyProcessingLocks (scheduleTrackAdvance b s) a = Some True"
  using schedule_locks [of b s] by auto

lemma criar_keeps_lock:
  "lobbyProcessingLocks (criar_lobby sid uuid nm s) = lobbyProcessingLocks s"
  by (simp add: criar_lobby_def assignLobby_def Let_def)

lemma entrar_keeps_lock:
  "lobbyProcessingLocks (entrar_lobby sid lid nm s) = lobbyProcessingLocks s"
  by (simp add: entrar_lobby_def Let_def split: option.splits)

lemma adicionar_keeps_lock:
  "lobbyProcessingLocks s a = Some True \<Longrightarrow> lobbyProcessingLocks (adicionar_faixa sid track s) a = Some True"
  by (simp add: adicionar_faixa_def Let_def split_beta schedule_keeps_lock split: option.splits)

lemma musica_keeps_lock:
  "lobbyProcessingLocks s a = Some True \<Longrightarrow> lobbyProcessingLocks (musica_terminou sid s) a = Some True"
  by (simp add: musica_terminou_def split_beta advance_keeps_lock split: option.splits)

lemma remover_keeps_lock:
  "lobbyProcessingLocks s a = Some True \<Longrightarrow> lobbyProcessingLocks (remover_faixa sid tid s) a = Some True"
  by (simp add: remover_faixa_def Let_def split_beta schedule_keeps_lock split: option.splits)

lemma disconnect_keeps_lock:
  "lobbyProcessingLocks (disconnect sid s) = lobbyProcessingLocks s"
  by (simp add: disconnect_def Let_def split_beta split: option.splits)

lemma fire_keeps_lock:
  "lobbyProcessingLocks s a = Some True \<Longrightarrow> \<not> clearsGuard a (Fire h) s \<Longrightarrow>
   lobbyProcessingLocks (fireTimeout h s) a = Some True"
  by (auto simp: fireTimeout_def runCallback_def clearsGuard_def Let_def advance_keeps_lock
      split: option.splits callback.splits)

lemma step_keeps_lock:
  "lobbyProcessingLocks s a = Some True \<Longrightarrow> \<not> clearsGuard a e s \<Longrightarrow>
   lobbyProcessingLocks (step e s) a = Some True"
  by (cases e)
     (simp_all add: criar_keeps_lock entrar_keeps_lock adicionar_keeps_lock musica_keeps_lock
        remover_keeps_lock disconnect_keeps_lock fire_keeps_lock)

lemma run_keeps_lock:
  "lobbyProcessingLocks s a = Some True \<Longrightarrow> withinCooldown a es s \<Longrightarrow>
   lobbyProcessingLocks (run es s) a = Some True"
  by (induction es arbitrary: s) (simp_all add: step_keeps_lock)

lemmas eval_defs = initial_def mkTrack_def criar_lobby_def entrar_lobby_def adicionar_faixa_def
  musica_terminou_def remover_faixa_def disconnect_def fireTimeout_def runCallback_def
  scheduleTrackAdvance.simps advanceToNextTrack.simps arming_def noDuration_def noStartTime_def
  prim_defs getLobby_def queueOf_def assignLobby_def blank_def trim_def whiteSpace_def
  stripLeading.simps inheritedKeys_def TIMEOUT_MAX_def Let_def
  clearsGuard_def

section \<open>Catalog ids stay unique in every queue\<close>

lemma findLobbyAndUser_Some:
  "findLobbyAndUser sid ls = Some (l, u) \<Longrightarrow> l \<in> set ls \<and> u \<in> set (users l) \<and> user_id u = sid"
proof (induction ls)
  case Nil
  then show ?case by simp
next
  case (Cons x xs)
  show ?case
  proof (cases "find (\<lambda>u. user_id u = sid) (users x)")
    case None
    with Cons show ?thesis by auto
  next
    case (Some v)
    with Cons.prems have "l = x" "u = v" by simp_all
    with Some show ?thesis by (auto simp: find_Some_iff)
  qed
qed

lemma distinctLobbies_shape: "distinctLobbies s = distinct (map fst (shape s))"
  by (simp add: distinctLobbies_def shape_def lshape_def comp_def)

lemma uniqueTrackIds_shape: "uniqueTrackIds s = list_all (\<lambda>x. distinct (snd (snd x))) (shape s)"
  by (simp add: uniqueTrackIds_def shape_def lshape_def list.pred_map comp_def)

lemma ids_upd:
  "(\<And>l. lobby_id (f l) = lobby_id l) \<Longrightarrow>
   map (lobby_id \<circ> (\<lambda>l. if lobby_id l = a then f l else l)) ls = map lobby_id ls"
  by (induction ls) auto

lemma ids_assign:
  "lobby_id c = a \<Longrightarrow>
   map (lobby_id \<circ> (\<lambda>l. if lobby_id l = a then c else l)) ls = map lobby_id ls"
  by (induction ls) auto

lemma distinct_ids_drop: "distinct (map track_id q) \<Longrightarrow> distinct (map track_id (drop n q))"
  using distinct_drop [of "map track_id q" n] by (simp add: drop_map)

lemma distinctLobbies_dropHead: "distinctLobbies (dropHead a s) = distinctLobbies s"
  by (simp add: distinctLobbies_def dropHead_def updLobby_def ids_upd)

lemma uniqueTrackIds_dropHead: "uniqueTrackIds s \<Longrightarrow> uniqueTrackIds (dropHead a s)"
  by (auto simp: uniqueTrackIds_def dropHead_def updLobby_def list_all_iff distinct_ids_drop)

lemma inv_of_shape:
  "shape s' = shape s \<or> shape s' = shape (dropHead a s) \<Longrightarrow>
   distinctLobbies s \<Longrightarrow> uniqueTrackIds s \<Longrightarrow> distinctLobbies s' \<and> uniqueTrackIds s'"
  using distinctLobbies_dropHead [of a s] uniqueTrackIds_dropHead [of s a]
  by (auto simp: distinctLobbies_shape uniqueTrackIds_shape)

lemma advance_inv:
  "distinctLobbies s \<Longrightarrow> uniqueTrackIds s \<Longrightarrow>
   distinctLobbies (advanceToNextTrack a s) \<and> uniqueTrackIds (advanceToNextTrack a s)"
  using inv_of_shape [OF advance_shape] .

lemma schedule_inv:
  "distinctLobbies s \<Longrightarrow> uniqueTrackIds s \<Longrightarrow>
   distinctLobbies (scheduleTrackAdvance a s) \<and> uniqueTrackIds (scheduleTrackAdvance a s)"
  using inv_of_shape [OF schedule_shape] .

lemma inv_cong:
  "lobbies s' = lobbies s \<Longrightarrow> distinctLobbies s' = distinctLobbies s \<and> uniqueTrackIds s' = uniqueTrackIds s"
  by (simp add: distinctLobbies_def uniqueTrackIds_def)

lemma inv_updHead:
  "(\<And>t. track_id (f t) = track_id t) \<Longrightarrow>
   distinctLobbies (updHead a f s) = distinctLobbies s \<and> uniqueTrackIds (updHead a f s) = uniqueTrackIds s"
  using shape_updHead [of f a s] by (simp add: distinctLobbies_shape uniqueTrackIds_shape)

lemma inv_updLobby:
  "(\<And>l. lobby_id (f l) = lobby_id l) \<Longrightarrow>
   (\<And>l. l \<in> set (lobbies s) \<Longrightarrow> lobby_id l = a \<Longrightarrow> distinct (map track_id (queue l)) \<Longrightarrow>
      distinct (map track_id (queue (f l)))) \<Longrightarrow>
   distinctLobbies s \<Longrightarrow> uniqueTrackIds s \<Longrightarrow>
   distinctLobbies (updLobby a f s) \<and> uniqueTrackIds (updLobby a f s)"
  by (auto simp: distinctLobbies_def uniqueTrackIds_def updLobby_def list_all_iff ids_upd)

lemma unique_lobby:
  "distinctLobbies s \<Longrightarrow> l \<in> set (lobbies s) \<Longrightarrow> l' \<in> set (lobbies s) \<Longrightarrow>
   lobby_id l' = lobby_id l \<Longrightarrow> l' = l"
  by (auto simp: distinctLobbies_def distinct_map inj_on_def)

lemma criar_inv:
  "distinctLobbies s \<Longrightarrow> uniqueTrackIds s \<Longrightarrow>
   distinctLobbies (criar_lobby sid uuid nm s) \<and> uniqueTrackIds (criar_lobby sid uuid nm s)"
  by (auto simp: criar_lobby_def assignLobby_def Let_def emit_def getLobby_def distinctLobbies_def
      uniqueTrackIds_def list_all_iff find_None_iff ids_assign)

lemma entrar_inv:
  "distinctLobbies s \<Longrightarrow> uniqueTrackIds s \<Longrightarrow>
   distinctLobbies (entrar_lobby sid lid nm s) \<and> uniqueTrackIds (entrar_lobby sid lid nm s)"
  by (auto simp: entrar_lobby_def Let_def inv_cong [of "emit _ _ _"] inv_updLobby split: option.splits)

lemma adicionar_inv:
  assumes "distinctLobbies s" "uniqueTrackIds s"
  shows "distinctLobbies (adicionar_faixa sid track s) \<and> uniqueTrackIds (adicionar_faixa sid track s)"
proof (cases "findLobbyAndUser sid (lobbies s)")
  case None
  then show ?thesis using assms by (simp add: adicionar_faixa_def inv_cong [of "emit _ _ _"])
next
  case (Some p)
  obtain lobby user where p: "p = (lobby, user)" by (cases p)
  have mem: "lobby \<in> set (lobbies s)" using Some p findLobbyAndUser_Some by blast
  show ?thesis
  proof (cases "role user \<noteq> dj \<or> list_ex (\<lambda>t. track_id t = track_id track) (queue lobby)")
    case True
    then show ?thesis using assms Some p
      by (auto simp: adicionar_faixa_def inv_cong [of "emit _ _ _"])
  next
    case False
    define s1 where "s1 = updLobby (lobby_id lobby) (\<lambda>l. l\<lparr>queue := queue l @ [track]\<rparr>) s"
    have fresh: "track_id track \<notin> track_id ` set (queue lobby)"
      using False by (auto simp: list_ex_iff)
    have i1: "distinctLobbies s1 \<and> uniqueTrackIds s1"
      unfolding s1_def
    proof (rule inv_updLobby)
      fix l assume "l \<in> set (lobbies s)" "lobby_id l = lobby_id lobby" "distinct (map track_id (queue l))"
      moreover from this have "l = lobby" using unique_lobby [OF assms(1) mem] by blast
      ultimately show "distinct (map track_id (queue (l\<lparr>queue := queue l @ [track]\<rparr>)))"
        using fresh by simp
    qed (simp_all add: assms)
    define s2 where "s2 = (if length (queueOf (lobby_id lobby) s1) = 1
                       then (case Date_now s1 of
                               (t, s') \<Rightarrow> scheduleTrackAdvance (lobby_id lobby)
                                  (updHead (lobby_id lobby) (\<lambda>h. h\<lparr>startTime := Some t\<rparr>) s'))
                       else s1)"
    have "\<And>t. distinctLobbies (updHead (lobby_id lobby) (\<lambda>h. h\<lparr>startTime := Some t\<rparr>) (snd (Date_now s1)))
          \<and> uniqueTrackIds (updHead (lobby_id lobby) (\<lambda>h. h\<lparr>startTime := Some t\<rparr>) (snd (Date_now s1)))"
      using i1 by (simp add: inv_updHead inv_cong [of "snd (Date_now _)"])
    then have i2: "distinctLobbies s2 \<and> uniqueTrackIds s2"
      using i1 by (simp add: s2_def split_beta schedule_inv)
    have "adicionar_faixa sid track s =
          emit (ToRoom (lobby_id lobby)) (fila_atualizada (queueOf (lobby_id lobby) s2)) s2"
      using Some p False by (simp add: adicionar_faixa_def Let_def s1_def s2_def)
    then show ?thesis using i2 by (simp add: inv_cong [of "emit _ _ _"])
  qed
qed

lemma musica_inv:
  "distinctLobbies s \<Longrightarrow> uniqueTrackIds s \<Longrightarrow>
   distinctLobbies (musica_terminou sid s) \<and> uniqueTrackIds (musica_terminou sid s)"
  by (simp add: musica_terminou_def advance_inv split: option.splits prod.splits)

lemma distinct_ids_filter: "distinct (map track_id q) \<Longrightarrow> distinct (map track_id (filter P q))"
  by (simp add: distinct_map_filter)

lemma remover_inv:
  assumes "distinctLobbies s" "uniqueTrackIds s"
  shows "distinctLobbies (remover_faixa sid tid s) \<and> uniqueTrackIds (remover_faixa sid tid s)"
proof (cases "findLobbyAndUser sid (lobbies s)")
  case None
  then show ?thesis using assms by (simp add: remover_faixa_def)
next
  case (Some p)
  obtain lobby user where p: "p = (lobby, user)" by (cases p)
  show ?thesis
  proof (cases "role user \<noteq> dj")
    case True
    then show ?thesis using assms Some p by (simp add: remover_faixa_def)
  next
    case False
    define s1 where "s1 = updLobby (lobby_id lobby)
                        (\<lambda>l. l\<lparr>queue := filter (\<lambda>track. track_id track \<noteq> tid) (queue l)\<rparr>) s"
    have i1: "distinctLobbies s1 \<and> uniqueTrackIds s1"
      unfolding s1_def by (rule inv_updLobby) (simp_all add: assms distinct_ids_filter)
    define s2 where "s2 = (if (case queue lobby of [] \<Rightarrow> False | t # ts \<Rightarrow> track_id t = tid)
                               \<and> length (queueOf (lobby_id lobby) s1) > 0
                       then (case Date_now s1 of
                               (t, s') \<Rightarrow>
                                 (let sa = updHead (lobby_id lobby) (\<lambda>h. h\<lparr>startTime := Some t\<rparr>) s';
                                      sb = (case lobbyAdvanceTimers sa (lobby_id lobby) of
                                                None \<Rightarrow> sa
                                              | Some existingTimer \<Rightarrow> clearTimeout existingTimer sa)
                                  in scheduleTrackAdvance (lobby_id lobby) sb))
                       else s1)"
    have st: "\<And>t. distinctLobbies (updHead (lobby_id lobby) (\<lambda>h. h\<lparr>startTime := Some t\<rparr>) (snd (Date_now s1)))
          \<and> uniqueTrackIds (updHead (lobby_id lobby) (\<lambda>h. h\<lparr>startTime := Some t\<rparr>) (snd (Date_now s1)))"
      using i1 by (simp add: inv_updHead inv_cong [of "snd (Date_now _)"])
    have i2: "distinctLobbies s2 \<and> uniqueTrackIds s2"
      using i1 st by (simp add: s2_def split_beta Let_def schedule_inv inv_cong [of "clearTimeout _ _"]
          split: option.splits)
    have "remover_faixa sid tid s =
          emit (ToRoom (lobby_id lobby)) (fila_atualizada (queueOf (lobby_id lobby) s2)) s2"
      using Some p False by (simp add: remover_faixa_def Let_def s1_def s2_def)
    then show ?thesis using i2 by (simp add: inv_cong [of "emit _ _ _"])
  qed
qed

lemma inv_filter_lobbies:
  "distinctLobbies s \<Longrightarrow> uniqueTrackIds s \<Longrightarrow>
   distinctLobbies (s\<lparr>lobbies := filter P (lobbies s)\<rparr>) \<and> uniqueTrackIds (s\<lparr>lobbies := filter P (lobbies s)\<rparr>)"
  by (auto simp: distinctLobbies_def uniqueTrackIds_def list_all_iff distinct_map_filter)

lemma upd_filtered:
  "map (\<lambda>l. if lobby_id l = a then f l else l) (filter (\<lambda>x. lobby_id x \<noteq> a) ls) =
   filter (\<lambda>x. lobby_id x \<noteq> a) ls"
  by (induction ls) auto

lemma disconnect_lobbies:
  "findLobbyAndUser sid (lobbies s) = Some (lobby, user) \<Longrightarrow>
   lobbies (disconnect sid s) =
     (if filter (\<lambda>u. user_id u \<noteq> user_id user) (users lobby) = []
      then filter (\<lambda>l. lobby_id l \<noteq> lobby_id lobby) (lobbies s)
      else lobbies (updLobby (lobby_id lobby)
             (\<lambda>l. l\<lparr>users := filter (\<lambda>u. user_id u \<noteq> user_id user) (users lobby)\<rparr>) s))"
  by (simp add: disconnect_def Let_def emit_def clearTimeout_def updLobby_def filter_map comp_def
      upd_filtered split: option.splits)

lemma disconnect_inv:
  assumes "distinctLobbies s" "uniqueTrackIds s"
  shows "distinctLobbies (disconnect sid s) \<and> uniqueTrackIds (disconnect sid s)"
proof (cases "findLobbyAndUser sid (lobbies s)")
  case None
  then show ?thesis using assms by (simp add: disconnect_def)
next
  case (Some p)
  obtain lobby user where p: "p = (lobby, user)" by (cases p)
  define s1 where "s1 = updLobby (lobby_id lobby)
     (\<lambda>l. l\<lparr>users := filter (\<lambda>u. user_id u \<noteq> user_id user) (users lobby)\<rparr>) s"
  define s0 where "s0 = s\<lparr>lobbies := filter (\<lambda>l. lobby_id l \<noteq> lobby_id lobby) (lobbies s)\<rparr>"
  have i1: "distinctLobbies s1 \<and> uniqueTrackIds s1"
    unfolding s1_def by (rule inv_updLobby) (simp_all add: assms)
  have i0: "distinctLobbies s0 \<and> uniqueTrackIds s0"
    unfolding s0_def using assms by (rule inv_filter_lobbies)
  have "lobbies (disconnect sid s) = lobbies s0 \<or> lobbies (disconnect sid s) = lobbies s1"
    using disconnect_lobbies [of sid s lobby user] Some p by (simp add: s0_def s1_def)
  then show ?thesis using i0 i1 inv_cong by metis
qed

lemma fire_inv:
  "distinctLobbies s \<Longrightarrow> uniqueTrackIds s \<Longrightarrow>
   distinctLobbies (fireTimeout h s) \<and> uniqueTrackIds (fireTimeout h s)"
proof -
  assume a: "distinctLobbies s" "uniqueTrackIds s"
  have "\<And>x t. distinctLobbies (s\<lparr>timeouts := x, now := t\<rparr>) \<and> uniqueTrackIds (s\<lparr>timeouts := x, now := t\<rparr>)"
    using a by (simp add: distinctLobbies_def uniqueTrackIds_def)
  then have "\<And>x t a. distinctLobbies (advanceToNextTrack a (s\<lparr>timeouts := x, now := t\<rparr>))
       \<and> uniqueTrackIds (advanceToNextTrack a (s\<lparr>timeouts := x, now := t\<rparr>))"
    using advance_inv by blast
  then show ?thesis using a
    by (simp add: fireTimeout_def runCallback_def Let_def distinctLobbies_def uniqueTrackIds_def
        split: option.splits callback.splits)
qed

lemma step_inv:
  "distinctLobbies s \<Longrightarrow> uniqueTrackIds s \<Longrightarrow> distinctLobbies (step e s) \<and> uniqueTrackIds (step e s)"
  by (cases e)
     (simp_all add: criar_inv entrar_inv adicionar_inv musica_inv remover_inv disconnect_inv fire_inv,
      simp add: distinctLobbies_def uniqueTrackIds_def)

lemma run_inv:
  "distinctLobbies s \<Longrightarrow> uniqueTrackIds s \<Longrightarrow> distinctLobbies (run es s) \<and> uniqueTrackIds (run es s)"
  by (induction es arbitrary: s) (simp_all add: step_inv)

lemma initial_inv: "distinctLobbies initial \<and> uniqueTrackIds initial"
  by (simp add: initial_def distinctLobbies_def uniqueTrackIds_def)

section \<open>Queues and users after a handler\<close>

lemma getLobby_found:
  "distinctLobbies s \<Longrightarrow> l \<in> set (lobbies s) \<Longrightarrow> getLobby (lobby_id l) s = Some l"
proof -
  assume d: "distinctLobbies s" and m: "l \<in> set (lobbies s)"
  have "\<And>ls. distinct (map lobby_id ls) \<Longrightarrow> l \<in> set ls \<Longrightarrow>
        find (\<lambda>x. lobby_id x = lobby_id l) ls = Some l"
  proof -
    fix ls show "distinct (map lobby_id ls) \<Longrightarrow> l \<in> set ls \<Longrightarrow>
        find (\<lambda>x. lobby_id x = lobby_id l) ls = Some l"
      by (induction ls) (auto simp: rev_image_eqI)
  qed
  then show ?thesis using d m by (simp add: getLobby_def distinctLobbies_def)
qed

lemma found_lobby:
  "distinctLobbies s \<Longrightarrow> findLobbyAndUser sid (lobbies s) = Some (lobby, user) \<Longrightarrow>
   getLobby (lobby_id lobby) s = Some lobby"
  using findLobbyAndUser_Some getLobby_found by blast

lemma queueOf_cong: "lobbies s' = lobbies s \<Longrightarrow> queueOf a s' = queueOf a s"
  by (simp add: queueOf_def getLobby_def)

lemma queueOf_updLobby:
  "(\<And>l. lobby_id (f l) = lobby_id l) \<Longrightarrow>
   queueOf a (updLobby a f s) = (case getLobby a s of None \<Rightarrow> [] | Some l \<Rightarrow> queue (f l))"
  by (simp add: queueOf_def getLobby_updLobby split: option.splits)


lemma advance_empty: "queueOf a s = [] \<Longrightarrow> advanceToNextTrack a s = s"
  by (simp add: advanceToNextTrack.simps queueOf_def split: option.splits)

lemma remover_ids:
  assumes "distinctLobbies s" "findLobbyAndUser sid (lobbies s) = Some (lobby, user)" "role user = dj"
  shows "map track_id (queueOf (lobby_id lobby) (remover_faixa sid tid s)) =
           filter (\<lambda>i. i \<noteq> tid) (map track_id (queue lobby)) \<or>
         map track_id (queueOf (lobby_id lobby) (remover_faixa sid tid s)) =
           drop 1 (filter (\<lambda>i. i \<noteq> tid) (map track_id (queue lobby)))"
proof -
  define a where "a = lobby_id lobby"
  define s1 where "s1 = updLobby a
                        (\<lambda>l. l\<lparr>queue := filter (\<lambda>track. track_id track \<noteq> tid) (queue l)\<rparr>) s"
  define s2 where "s2 = (if (case queue lobby of [] \<Rightarrow> False | t # ts \<Rightarrow> track_id t = tid)
                               \<and> length (queueOf a s1) > 0
                       then (case Date_now s1 of
                               (t, s') \<Rightarrow>
                                 (let sa = updHead a (\<lambda>h. h\<lparr>startTime := Some t\<rparr>) s';
                                      sb = (case lobbyAdvanceTimers sa a of
                                                None \<Rightarrow> sa
                                              | Some existingTimer \<Rightarrow> clearTimeout existingTimer sa)
                                  in scheduleTrackAdvance a sb))
                       else s1)"
  have r: "remover_faixa sid tid s = emit (ToRoom a) (fila_atualizada (queueOf a s2)) s2"
    using assms by (simp add: remover_faixa_def Let_def s1_def s2_def a_def)
  have g: "getLobby a s = Some lobby" unfolding a_def using assms(1,2) by (rule found_lobby)
  have q1: "map track_id (queueOf a s1) = filter (\<lambda>i. i \<noteq> tid) (map track_id (queue lobby))"
    using g by (simp add: s1_def queueOf_updLobby filter_map comp_def)
  have st: "\<And>t. shape (case lobbyAdvanceTimers (updHead a (\<lambda>h. h\<lparr>startTime := Some t\<rparr>) (snd (Date_now s1))) a of
                   None \<Rightarrow> updHead a (\<lambda>h. h\<lparr>startTime := Some t\<rparr>) (snd (Date_now s1))
                 | Some existingTimer \<Rightarrow>
                     clearTimeout existingTimer (updHead a (\<lambda>h. h\<lparr>startTime := Some t\<rparr>) (snd (Date_now s1))))
              = shape s1"
    by (simp add: shape_cong [of "clearTimeout _ _"] shape_updHead shape_cong [of "snd (Date_now _)"]
        split: option.splits)
  have "shape s2 = shape s1 \<or> shape s2 = shape (dropHead a s1)"
  proof (cases "(case queue lobby of [] \<Rightarrow> False | t # ts \<Rightarrow> track_id t = tid) \<and> length (queueOf a s1) > 0")
    case False
    then show ?thesis by (auto simp: s2_def)
  next
    case True
    obtain sb where sb: "s2 = scheduleTrackAdvance a sb" "shape sb = shape s1"
      using True st by (auto simp: s2_def split_beta Let_def)
    show ?thesis using schedule_shape [of a sb] sb shape_dropHead [of a sb] shape_dropHead [of a s1]
      by auto
  qed
  then have "map track_id (queueOf a s2) = map track_id (queueOf a s1) \<or>
             map track_id (queueOf a s2) = map track_id (queueOf a (dropHead a s1))"
    using shape_ids by blast
  moreover have "map track_id (queueOf a (dropHead a s1)) =
                 drop 1 (filter (\<lambda>i. i \<noteq> tid) (map track_id (queue lobby)))"
    using q1 by (simp add: queueOf_dropHead drop_map [symmetric] del: drop_map)
  ultimately show ?thesis
    using q1 by (simp add: r a_def [symmetric] queueOf_cong [of "emit _ _ _"])
qed

section \<open>Roles\<close>

lemma members_shape: "members s = map (\<lambda>x. (fst x, fst (snd x))) (shape s)"
  by (simp add: members_def shape_def lshape_def)

lemma members_cong: "lobbies s' = lobbies s \<Longrightarrow> members s' = members s"
  by (simp add: members_def)

lemma map_upd_proj:
  "(\<And>l. g (f l) = g l) \<Longrightarrow> map (g \<circ> (\<lambda>l. if P l then f l else l)) ls = map g ls"
  by (induction ls) auto

lemma members_updLobby:
  "(\<And>l. lobby_id (f l) = lobby_id l \<and> users (f l) = users l) \<Longrightarrow>
   members (updLobby a f s) = members s"
  using map_upd_proj [of "\<lambda>l. (lobby_id l, users l)" f "\<lambda>l. lobby_id l = a" "lobbies s"]
  by (simp add: members_def updLobby_def)

lemma members_dropHead: "members (dropHead a s) = members s"
  by (simp add: dropHead_def members_updLobby)

lemma members_of_shape:
  "shape s' = shape s \<or> shape s' = shape (dropHead a s) \<Longrightarrow> members s' = members s"
  using members_dropHead [of a s] by (auto simp: members_shape)

lemma members_advance [simp]: "members (advanceToNextTrack a s) = members s"
  using members_of_shape [OF advance_shape] .

lemma members_schedule [simp]: "members (scheduleTrackAdvance a s) = members s"
  using members_of_shape [OF schedule_shape] .

lemma members_updHead [simp]: "members (updHead a f s) = members s"
proof -
  have "\<And>l. lobby_id (case queue l of [] \<Rightarrow> l | t # ts \<Rightarrow> l\<lparr>queue := f t # ts\<rparr>) = lobby_id l \<and>
            users (case queue l of [] \<Rightarrow> l | t # ts \<Rightarrow> l\<lparr>queue := f t # ts\<rparr>) = users l"
    by (simp split: list.splits)
  then show ?thesis unfolding updHead_def by (rule members_updLobby)
qed

lemma members_prims [simp]:
  "members (snd (Date_now s)) = members s"
  "members (clearTimeout h s) = members s"
  "members (emit to m s) = members s"
  by (simp_all add: members_def)

lemma adicionar_members: "members (adicionar_faixa sid track s) = members s"
  by (simp add: adicionar_faixa_def Let_def split_beta members_updLobby split: option.splits)

lemma remover_members: "members (remover_faixa sid tid s) = members s"
  by (simp add: remover_faixa_def Let_def split_beta members_updLobby split: option.splits)

lemma musica_members: "members (musica_terminou sid s) = members s"
  by (simp add: musica_terminou_def split_beta split: option.splits)

lemma fire_members: "members (fireTimeout h s) = members s"
proof -
  have "\<And>x t. members (s\<lparr>timeouts := x, now := t\<rparr>) = members s" by (simp add: members_def)
  then have "\<And>x t a. members (advanceToNextTrack a (s\<lparr>timeouts := x, now := t\<rparr>)) = members s"
    by simp
  then show ?thesis
    by (simp add: fireTimeout_def runCallback_def Let_def members_def
        split: option.splits callback.splits)
qed

lemma roles_members: "rolesInJoinOrder s = list_all (\<lambda>x. rolesByJoinOrder \<lparr>lobby_id = fst x, users = snd x, queue = []\<rparr>) (members s)"
  by (simp add: rolesInJoinOrder_def members_def list_all_iff rolesByJoinOrder_def)

lemma roles_cong: "members s' = members s \<Longrightarrow> rolesInJoinOrder s' = rolesInJoinOrder s"
  by (simp add: roles_members)

lemma distinctLobbies_members: "distinctLobbies s = distinct (map fst (members s))"
  by (simp add: distinctLobbies_def members_def comp_def)

lemma count_djs:
  "map role us = replicate (min 2 (length us)) dj @ replicate (length us - 2) spectator \<Longrightarrow>
   length (filter (\<lambda>u. role u = dj) us) = min 2 (length us)"
proof -
  assume a: "map role us = replicate (min 2 (length us)) dj @ replicate (length us - 2) spectator"
  have "length (filter (\<lambda>u. role u = dj) us) = length (filter (\<lambda>r. r = dj) (map role us))"
    by (simp add: filter_map comp_def)
  also have "\<dots> = min 2 (length us)" by (subst a) simp
  finally show ?thesis .
qed

lemma roles_append:
  assumes "rolesByJoinOrder l"
  shows "rolesByJoinOrder (l\<lparr>users := users l @
           [\<lparr>user_id = sid, name = nm,
             role = (if length (filter (\<lambda>u. role u = dj) (users l)) < 2 then dj else spectator)\<rparr>]\<rparr>)"
proof -
  define n where "n = length (users l)"
  have r: "map role (users l) = replicate (min 2 n) dj @ replicate (n - 2) spectator"
    using assms by (simp add: rolesByJoinOrder_def n_def)
  have c: "length (filter (\<lambda>u. role u = dj) (users l)) = min 2 n"
    using count_djs [of "users l"] r by (simp add: n_def)
  consider "n = 0" | "n = 1" | "n \<ge> 2" by linarith
  then show ?thesis
  proof cases
    case 1
    then show ?thesis using r c by (simp add: rolesByJoinOrder_def n_def)
  next
    case 2
    then show ?thesis using r c
      by (simp add: rolesByJoinOrder_def n_def [symmetric] numeral_2_eq_2)
  next
    case 3
    then have "Suc n - 2 = Suc (n - 2)" by simp
    then show ?thesis using 3 r c
      by (simp add: rolesByJoinOrder_def n_def [symmetric] replicate_append_same numeral_2_eq_2)
  qed
qed

lemma list_all_upd:
  "list_all P ls \<Longrightarrow> (\<And>l. l \<in> set ls \<Longrightarrow> lobby_id l = a \<Longrightarrow> P (f l)) \<Longrightarrow>
   list_all P (map (\<lambda>l. if lobby_id l = a then f l else l) ls)"
  by (auto simp: list_all_iff)

lemma criar_roles:
  "rolesInJoinOrder s \<Longrightarrow> rolesInJoinOrder (criar_lobby sid uuid nm s)"
  by (auto simp: criar_lobby_def assignLobby_def Let_def emit_def rolesInJoinOrder_def list_all_iff
      rolesByJoinOrder_def)

lemma entrar_roles:
  assumes "distinctLobbies s" "rolesInJoinOrder s"
  shows "rolesInJoinOrder (entrar_lobby sid lid nm s)"
proof (cases "blank lid \<or> blank nm \<or> getLobby (trim lid) s = None")
  case True
  then show ?thesis using assms(2)
    by (auto simp: entrar_lobby_def rolesInJoinOrder_def split: option.splits)
next
  case False
  then obtain lobby where g: "getLobby (trim lid) s = Some lobby" by auto
  then have mem: "lobby \<in> set (lobbies s)" by (auto simp: getLobby_def find_Some_iff)
  define newUser where "newUser = \<lparr>user_id = sid, name = trim nm,
     role = (if length (filter (\<lambda>u. role u = dj) (users lobby)) < 2 then dj else spectator)\<rparr>"
  have "lobbies (entrar_lobby sid lid nm s) =
        lobbies (updLobby (lobby_id lobby) (\<lambda>l. l\<lparr>users := users l @ [newUser]\<rparr>) s)"
    using False g by (simp add: entrar_lobby_def Let_def newUser_def)
  moreover have "list_all rolesByJoinOrder
        (lobbies (updLobby (lobby_id lobby) (\<lambda>l. l\<lparr>users := users l @ [newUser]\<rparr>) s))"
  proof -
    have "list_all rolesByJoinOrder (lobbies s)" using assms(2) by (simp add: rolesInJoinOrder_def)
    moreover have "rolesByJoinOrder (l\<lparr>users := users l @ [newUser]\<rparr>)"
      if l: "l \<in> set (lobbies s)" "lobby_id l = lobby_id lobby" for l
    proof -
      have "l = lobby" using l unique_lobby [OF assms(1) mem] by blast
      moreover have "rolesByJoinOrder lobby"
        using assms(2) mem by (simp add: rolesInJoinOrder_def list_all_iff)
      ultimately show ?thesis unfolding newUser_def using roles_append by simp
    qed
    ultimately show ?thesis unfolding updLobby_def by (simp add: list_all_upd)
  qed
  ultimately show ?thesis by (simp add: rolesInJoinOrder_def)
qed

lemma step_roles:
  "\<not> isDisconnect e \<Longrightarrow> distinctLobbies s \<Longrightarrow> rolesInJoinOrder s \<Longrightarrow> rolesInJoinOrder (step e s)"
  by (cases e)
     (simp_all add: criar_roles entrar_roles roles_cong [OF adicionar_members]
        roles_cong [OF remover_members] roles_cong [OF musica_members] roles_cong [OF fire_members],
      simp add: rolesInJoinOrder_def)

lemma run_roles:
  "\<forall>e\<in>set es. \<not> isDisconnect e \<Longrightarrow> distinctLobbies s \<Longrightarrow> uniqueTrackIds s \<Longrightarrow> rolesInJoinOrder s \<Longrightarrow>
   rolesInJoinOrder (run es s)"
proof (induction es arbitrary: s)
  case Nil
  then show ?case by simp
next
  case (Cons e es)
  then show ?case using step_inv [of s e] step_roles [of e s] by simp
qed

section \<open>Adding a track\<close>

lemma queueOf_prims [simp]:
  "queueOf a (snd (Date_now s)) = queueOf a s"
  "queueOf a (clearTimeout h s) = queueOf a s"
  "queueOf a (emit to m s) = queueOf a s"
  "queueOf a (cancelStored b s) = queueOf a s"
  "queueOf a (storeTimer b r s) = queueOf a s"
  by (simp_all add: queueOf_def getLobby_def)

lemma clock_prims [simp]:
  "now (updLobby a f s) = now s" "ticks (updLobby a f s) = ticks s"
  "now (updHead a g s) = now s" "ticks (updHead a g s) = ticks s"
  "now (cancelStored a s) = now s" "ticks (cancelStored a s) = ticks s"
  "now (clearTimeout h s) = now s" "ticks (clearTimeout h s) = ticks s"
  "now (emit to m s) = now s" "ticks (emit to m s) = ticks s"
  by (simp_all add: prim_defs split: option.splits)



section \<open>What arming leaves behind\<close>








section \<open>Adding a track to an empty queue\<close>











section \<open>The guard absorbs duplicate triggers\<close>

text \<open>
  Claim C1. When the guard of a lobby is set, \<open>advanceToNextTrack\<close> returns the
  state it was given: queue, timers, timeouts and sent messages are all unchanged.
  Hence a call that did dequeue a track makes every later call for the same lobby
  a no-op for as long as the unlock closure has not fired, whatever other events
  come in between; two calls in a row are the same as one, and between them they
  take at most one track off the queue.
\<close>

theorem advance_guard_absorbs_duplicates:
  "(lobbyProcessingLocks s lobbyId = Some True \<longrightarrow> advanceToNextTrack lobbyId s = s) \<and>
   (advanceToNextTrack lobbyId s \<noteq> s \<and> withinCooldown lobbyId es (advanceToNextTrack lobbyId s) \<longrightarrow>
      advanceToNextTrack lobbyId (run es (advanceToNextTrack lobbyId s)) =
        run es (advanceToNextTrack lobbyId s)) \<and>
   advanceToNextTrack lobbyId (advanceToNextTrack lobbyId s) = advanceToNextTrack lobbyId s \<and>
   length (queueOf lobbyId s) \<le>
     Suc (length (queueOf lobbyId (advanceToNextTrack lobbyId (advanceToNextTrack lobbyId s))))"
proof (intro conjI impI)
  assume "lobbyProcessingLocks s lobbyId = Some True"
  then show "advanceToNextTrack lobbyId s = s" by (rule advance_locked)
next
  assume a: "advanceToNextTrack lobbyId s \<noteq> s \<and> withinCooldown lobbyId es (advanceToNextTrack lobbyId s)"
  then have "lobbyProcessingLocks (advanceToNextTrack lobbyId s) lobbyId = Some True"
    using advance_cases [of lobbyId s] by auto
  with a have "lobbyProcessingLocks (run es (advanceToNextTrack lobbyId s)) lobbyId = Some True"
    by (simp add: run_keeps_lock)
  then show "advanceToNextTrack lobbyId (run es (advanceToNextTrack lobbyId s)) =
        run es (advanceToNextTrack lobbyId s)" by (rule advance_locked)
next
  show "advanceToNextTrack lobbyId (advanceToNextTrack lobbyId s) = advanceToNextTrack lobbyId s"
    by (rule advance_idem)
next
  have "length (map track_id (queueOf lobbyId s)) \<le>
        Suc (length (map track_id (queueOf lobbyId (advanceToNextTrack lobbyId s))))"
    using advance_ids [of lobbyId s] by (auto simp del: length_map)
  then show "length (queueOf lobbyId s) \<le>
     Suc (length (queueOf lobbyId (advanceToNextTrack lobbyId (advanceToNextTrack lobbyId s))))"
    by (simp add: advance_idem)
qed

theorem advance_guard_absorbs_duplicates_witness:
  "lobbyProcessingLocks (advanceToNextTrack ''L'' twoTracks) ''L'' = Some True \<and>
   advanceToNextTrack ''L'' twoTracks \<noteq> twoTracks \<and>
   withinCooldown ''L'' [MusicaTerminou ''A''] (advanceToNextTrack ''L'' twoTracks) \<and>
   advanceToNextTrack ''L'' (advanceToNextTrack ''L'' twoTracks) = advanceToNextTrack ''L'' twoTracks \<and>
   advanceToNextTrack ''L'' (run [MusicaTerminou ''A''] (advanceToNextTrack ''L'' twoTracks)) =
     run [MusicaTerminou ''A''] (advanceToNextTrack ''L'' twoTracks)"
proof -
  have l: "lobbyProcessingLocks (advanceToNextTrack ''L'' twoTracks) ''L'' = Some True"
    by (simp add: twoTracks_def eval_defs)
  have n: "length (queueOf ''L'' (advanceToNextTrack ''L'' twoTracks)) \<noteq> length (queueOf ''L'' twoTracks)"
    by (simp add: twoTracks_def eval_defs)
  have w: "withinCooldown ''L'' [MusicaTerminou ''A''] (advanceToNextTrack ''L'' twoTracks)"
    by (simp add: twoTracks_def eval_defs)
  from n have d: "advanceToNextTrack ''L'' twoTracks \<noteq> twoTracks" by auto
  show ?thesis
    using l d w
      advance_guard_absorbs_duplicates [of "advanceToNextTrack ''L'' twoTracks" "''L''" "[]"]
      advance_guard_absorbs_duplicates [of twoTracks "''L''" "[MusicaTerminou ''A'']"]
    by simp
qed

section \<open>Runs on which the code departs from the specification\<close>

text \<open>
  Claim C2 (the code departs from it). With a timer stored for her lobby, as in
  run \<open>twoTracks\<close>, Alice's \<open>musica_terminou\<close> changes nothing. In run
  \<open>secondPlaying\<close> T1 has ended by its timer, T2 plays since 5001 and its timer
  (handle 1) is pending for 245001; but the timer closure has deleted T2's handle
  from \<open>lobbyAdvanceTimers\<close>, where the handler looks. Within the cool-down the
  signal is still absorbed, by the guard; at 6001, after the cool-down, the signal
  is not ignored: it takes T2 off the queue, although T2's timer is armed.
\<close>

theorem fallback_signal_not_ignored_with_timer_pending:
  "lobbyAdvanceTimers twoTracks ''L'' = Some 0 \<and>
   musica_terminou ''A'' twoTracks = twoTracks \<and>
   map track_id (queueOf ''L'' (musica_terminou ''A'' (run [Fire 0] twoTracks))) = [''T2''] \<and>
   map track_id (queueOf ''L'' secondPlaying) = [''T2''] \<and>
   map startTime (queueOf ''L'' secondPlaying) = [Some 5001] \<and>
   map (\<lambda>t. (handle t, fireAt t)) (pendingAdvances ''L'' secondPlaying) = [(1, 245001)] \<and>
   lobbyAdvanceTimers secondPlaying ''L'' = None \<and>
   now secondPlaying = 6001 \<and>
   queueOf ''L'' (musica_terminou ''A'' secondPlaying) = [] \<and>
   now (musica_terminou ''A'' secondPlaying) = 6001"
proof -
  have f: "findLobbyAndUser ''A'' (lobbies twoTracks) =
     Some (hd (lobbies twoTracks), hd (users (hd (lobbies twoTracks))))"
    by (simp add: twoTracks_def eval_defs)
  have i: "lobby_id (hd (lobbies twoTracks)) = ''L''"
    by (simp add: twoTracks_def eval_defs)
  have t: "lobbyAdvanceTimers twoTracks ''L'' = Some 0"
    by (simp add: twoTracks_def eval_defs)
  have same: "musica_terminou ''A'' twoTracks = twoTracks"
    using f i t by (simp add: musica_terminou_def)
  have cool: "map track_id (queueOf ''L'' (musica_terminou ''A'' (run [Fire 0] twoTracks))) = [''T2'']"
    by (simp add: twoTracks_def eval_defs)
  have late: "map track_id (queueOf ''L'' secondPlaying) = [''T2''] \<and>
   map startTime (queueOf ''L'' secondPlaying) = [Some 5001] \<and>
   map (\<lambda>t. (handle t, fireAt t)) (pendingAdvances ''L'' secondPlaying) = [(1, 245001)] \<and>
   lobbyAdvanceTimers secondPlaying ''L'' = None \<and>
   now secondPlaying = 6001 \<and>
   queueOf ''L'' (musica_terminou ''A'' secondPlaying) = [] \<and>
   now (musica_terminou ''A'' secondPlaying) = 6001"
    by (simp add: secondPlaying_def twoTracks_def pendingAdvances_def eval_defs)
  from t same cool late show ?thesis by blast
qed

text \<open>
  Claim C3 (the code departs from it). In run \<open>shortSecond\<close> the timer of T1 fires
  with T2 waiting, and T2's remaining time is zero when it is re-armed.
  \<open>scheduleTrackAdvance\<close> calls \<open>advanceToNextTrack\<close> at once, but the outer call has
  set the guard, so the inner call returns without dequeuing: T2 stays at the head,
  a single queue update is sent, and no timer is armed for T2. In general one
  call of \<open>advanceToNextTrack\<close> never takes more than one track off the queue.
\<close>

theorem immediate_readvance_blocked_by_guard:
  "map track_id (queueOf ''L'' shortSecond) = [''T2''] \<and>
   map startTime (queueOf ''L'' shortSecond) = [Some 5001] \<and>
   now shortSecond = 6001 \<and>
   pendingAdvances ''L'' shortSecond = [] \<and>
   lobbyAdvanceTimers shortSecond ''L'' = None \<and>
   lobbyProcessingLocks shortSecond ''L'' = Some True \<and>
   length (filter (\<lambda>m. fst m = ToRoom ''L'') (emitted shortSecond)) = 3 \<and>
   length (queueOf a s) \<le> Suc (length (queueOf a (advanceToNextTrack a s)))"
proof -
  have run: "map track_id (queueOf ''L'' shortSecond) = [''T2''] \<and>
   map startTime (queueOf ''L'' shortSecond) = [Some 5001] \<and>
   now shortSecond = 6001 \<and>
   pendingAdvances ''L'' shortSecond = [] \<and>
   lobbyAdvanceTimers shortSecond ''L'' = None \<and>
   lobbyProcessingLocks shortSecond ''L'' = Some True \<and>
   length (filter (\<lambda>m. fst m = ToRoom ''L'') (emitted shortSecond)) = 3"
    by (simp add: shortSecond_def pendingAdvances_def eval_defs)
  have "length (map track_id (queueOf a s)) \<le>
        Suc (length (map track_id (queueOf a (advanceToNextTrack a s))))"
    using advance_ids [of a s] by (auto simp del: length_map)
  then have "length (queueOf a s) \<le> Suc (length (queueOf a (advanceToNextTrack a s)))"
    by simp
  with run show ?thesis by blast
qed

text \<open>
  Claim C4 (the code departs from it). In run \<open>oneTrack\<close> Alice queues T1 (10
  seconds), its timer (handle 0) is armed for time 10001, and she removes T1 at
  once. The queue is empty afterwards, but \<open>remover_faixa\<close> deals with the timer
  only when tracks are left: the timer is neither cleared nor forgotten, it fires
  at T1's deadline and calls \<open>advanceToNextTrack\<close>, here on an empty queue. In run
  \<open>staleTimers\<close> the timer left behind by the removal of T3 (handle 3, due at
  246001) is still pending when T4 plays, whose own timer (handle 4) is due at
  485001; it fires and takes T4 off the queue.
\<close>

theorem timer_survives_removal_of_only_track:
  "map track_id (queueOf ''L'' oneTrack) = [''T1''] \<and>
   lobbyAdvanceTimers oneTrack ''L'' = Some 0 \<and>
   queueOf ''L'' (remover_faixa ''A'' ''T1'' oneTrack) = [] \<and>
   lobbyAdvanceTimers (remover_faixa ''A'' ''T1'' oneTrack) ''L'' = Some 0 \<and>
   map (\<lambda>t. (handle t, fireAt t, callback t)) (timeouts (remover_faixa ''A'' ''T1'' oneTrack)) =
     [(0, 10001, AdvanceCallback ''L'')] \<and>
   now (fireTimeout 0 (remover_faixa ''A'' ''T1'' oneTrack)) = 10001 \<and>
   map track_id (queueOf ''L'' staleTimers) = [''T4''] \<and>
   map (\<lambda>t. (handle t, fireAt t)) (pendingAdvances ''L'' staleTimers) = [(3, 246001), (4, 485001)] \<and>
   lobbyAdvanceTimers staleTimers ''L'' = Some 4 \<and>
   queueOf ''L'' (fireTimeout 3 staleTimers) = [] \<and>
   now (fireTimeout 3 staleTimers) = 246001"
proof -
  have one: "map track_id (queueOf ''L'' oneTrack) = [''T1''] \<and>
   lobbyAdvanceTimers oneTrack ''L'' = Some 0 \<and>
   queueOf ''L'' (remover_faixa ''A'' ''T1'' oneTrack) = [] \<and>
   lobbyAdvanceTimers (remover_faixa ''A'' ''T1'' oneTrack) ''L'' = Some 0 \<and>
   map (\<lambda>t. (handle t, fireAt t, callback t)) (timeouts (remover_faixa ''A'' ''T1'' oneTrack)) =
     [(0, 10001, AdvanceCallback ''L'')] \<and>
   now (fireTimeout 0 (remover_faixa ''A'' ''T1'' oneTrack)) = 10001"
    by (simp add: oneTrack_def eval_defs)
  have stale: "map track_id (queueOf ''L'' staleTimers) = [''T4''] \<and>
   map (\<lambda>t. (handle t, fireAt t)) (pendingAdvances ''L'' staleTimers) = [(3, 246001), (4, 485001)] \<and>
   lobbyAdvanceTimers staleTimers ''L'' = Some 4 \<and>
   queueOf ''L'' (fireTimeout 3 staleTimers) = [] \<and>
   now (fireTimeout 3 staleTimers) = 246001"
    by (simp add: staleTimers_def threeTracks_def pendingAdvances_def eval_defs)
  from one stale show ?thesis by blast
qed

text \<open>
  Claim C5 (the code departs from it). The timer closure deletes the lobby's entry
  of \<open>lobbyAdvanceTimers\<close> after \<open>advanceToNextTrack\<close> has returned, that is after
  the timer for the next track has been stored there. In run \<open>threeTracks\<close> the
  timer armed for T2 (handle 1) is therefore pending but forgotten. When Alice
  then removes T2, nothing is cancelled and a timer for T3 (handle 3) is armed
  next to it: two advance timers are outstanding for the one lobby, and the
  forgotten one takes T3 off the queue before T3's own deadline.
\<close>

theorem two_advance_timers_outstanding:
  "map handle (pendingAdvances ''L'' threeTracks) = [1] \<and>
   lobbyAdvanceTimers threeTracks ''L'' = None \<and>
   map track_id (queueOf ''L'' threeTracks) = [''T2'', ''T3''] \<and>
   map (\<lambda>t. (handle t, fireAt t)) (pendingAdvances ''L'' (remover_faixa ''A'' ''T2'' threeTracks))
     = [(1, 245001), (3, 246001)] \<and>
   lobbyAdvanceTimers (remover_faixa ''A'' ''T2'' threeTracks) ''L'' = Some 3 \<and>
   map track_id (queueOf ''L'' (remover_faixa ''A'' ''T2'' threeTracks)) = [''T3''] \<and>
   queueOf ''L'' (fireTimeout 1 (remover_faixa ''A'' ''T2'' threeTracks)) = [] \<and>
   now (fireTimeout 1 (remover_faixa ''A'' ''T2'' threeTracks)) = 245001"
  by (simp add: threeTracks_def pendingAdvances_def eval_defs)

text \<open>
  Claim C6 (the code departs from it). In run \<open>twoUsers\<close> Alice and Bob are in lobby
  L and T1 plays with its timer armed. Bob disconnects: Alice remains, the queue is
  unchanged, but the timer has been cleared and forgotten, so nothing will end T1.
\<close>

theorem disconnect_cancels_timer_of_live_lobby:
  "map handle (pendingAdvances ''L'' twoUsers) = [0] \<and>
   lobbyAdvanceTimers twoUsers ''L'' = Some 0 \<and>
   map user_id (usersOf ''L'' (disconnect ''B'' twoUsers)) = [''A''] \<and>
   queueOf ''L'' (disconnect ''B'' twoUsers) = queueOf ''L'' twoUsers \<and>
   map track_id (queueOf ''L'' (disconnect ''B'' twoUsers)) = [''T1''] \<and>
   timeouts (disconnect ''B'' twoUsers) = [] \<and>
   lobbyAdvanceTimers (disconnect ''B'' twoUsers) ''L'' = None"
  by (simp add: twoUsers_def pendingAdvances_def usersOf_def eval_defs)

text \<open>
  Claim C8 (the code departs from it). In run \<open>threeUsers\<close> Carol is a spectator.
  Her \<open>adicionar_faixa\<close> leaves the queue as it is and sends her the error
  "Apenas DJs podem adicionar musicas."; her \<open>remover_faixa\<close> leaves the queue as
  it is too, but sends nothing to anyone.
\<close>

theorem spectator_remove_sends_no_error:
  "map (\<lambda>u. (user_id u, role u)) (usersOf ''L'' threeUsers)
     = [(''A'', dj), (''B'', dj), (''C'', spectator)] \<and>
   lobbies (adicionar_faixa ''C'' (mkTrack ''T2'' None) threeUsers) = lobbies threeUsers \<and>
   emitted (adicionar_faixa ''C'' (mkTrack ''T2'' None) threeUsers)
     = emitted threeUsers @ [(ToSocket ''C'', erro_lobby ApenasDJs)] \<and>
   lobbies (remover_faixa ''C'' ''T1'' threeUsers) = lobbies threeUsers \<and>
   emitted (remover_faixa ''C'' ''T1'' threeUsers) = emitted threeUsers"
  by (simp add: threeUsers_def twoUsers_def usersOf_def eval_defs)

section \<open>Uniqueness of catalog ids\<close>

text \<open>
  Claim C10. In every state the server can reach, no queue holds two tracks with
  the same catalog id, and every event keeps it so. \<open>adicionar_faixa\<close> rejects an
  id that is already queued (it only sends "Esta musica ja esta na fila." to the
  sender), \<open>remover_faixa\<close> leaves no track with the given id in the queue, and
  \<open>advanceToNextTrack\<close> keeps the ids of the queue or drops the first one.
\<close>

theorem catalog_ids_unique_in_queue:
  "uniqueTrackIds (run es initial) \<and>
   (distinctLobbies s \<and> uniqueTrackIds s \<longrightarrow>
      distinctLobbies (step e s) \<and> uniqueTrackIds (step e s)) \<and>
   (findLobbyAndUser sid (lobbies s) = Some (lobby, user) \<and> role user = dj \<and>
      list_ex (\<lambda>t. track_id t = track_id track) (queue lobby) \<longrightarrow>
      adicionar_faixa sid track s = emit (ToSocket sid) (erro_lobby JaNaFila) s) \<and>
   (distinctLobbies s \<and> findLobbyAndUser sid (lobbies s) = Some (lobby, user) \<and> role user = dj \<longrightarrow>
      tid \<notin> track_id ` set (queueOf (lobby_id lobby) (remover_faixa sid tid s))) \<and>
   (map track_id (queueOf a (advanceToNextTrack a s)) = map track_id (queueOf a s) \<or>
    map track_id (queueOf a (advanceToNextTrack a s)) = drop 1 (map track_id (queueOf a s)))"
proof (intro conjI impI)
  show "uniqueTrackIds (run es initial)"
    using run_inv [of initial es] initial_inv by simp
next
  assume "distinctLobbies s \<and> uniqueTrackIds s"
  then show "distinctLobbies (step e s)" "uniqueTrackIds (step e s)"
    using step_inv [of s e] by simp_all
next
  assume "findLobbyAndUser sid (lobbies s) = Some (lobby, user) \<and> role user = dj \<and>
      list_ex (\<lambda>t. track_id t = track_id track) (queue lobby)"
  then show "adicionar_faixa sid track s = emit (ToSocket sid) (erro_lobby JaNaFila) s"
    by (simp add: adicionar_faixa_def)
next
  assume h: "distinctLobbies s \<and> findLobbyAndUser sid (lobbies s) = Some (lobby, user) \<and> role user = dj"
  define ids where "ids = map track_id (queueOf (lobby_id lobby) (remover_faixa sid tid s))"
  define kept where "kept = filter (\<lambda>i. i \<noteq> tid) (map track_id (queue lobby))"
  have "ids = kept \<or> ids = drop 1 kept"
    unfolding ids_def kept_def using remover_ids [of s sid lobby user tid] h by blast
  moreover have "tid \<notin> set kept" by (simp add: kept_def)
  moreover have "set (drop 1 kept) \<subseteq> set kept" by (rule set_drop_subset)
  ultimately have "tid \<notin> set ids" by blast
  then show "tid \<notin> track_id ` set (queueOf (lobby_id lobby) (remover_faixa sid tid s))"
    by (simp add: ids_def)
next
  show "map track_id (queueOf a (advanceToNextTrack a s)) = map track_id (queueOf a s) \<or>
    map track_id (queueOf a (advanceToNextTrack a s)) = drop 1 (map track_id (queueOf a s))"
    by (rule advance_ids)
qed

theorem catalog_ids_unique_in_queue_witness:
  "distinctLobbies twoTracks \<and> uniqueTrackIds twoTracks \<and>
   uniqueTrackIds (step (AdicionarFaixa ''A'' (mkTrack ''T3'' None)) twoTracks) \<and>
   findLobbyAndUser ''A'' (lobbies twoTracks) =
     Some (hd (lobbies twoTracks), hd (users (hd (lobbies twoTracks)))) \<and>
   role (hd (users (hd (lobbies twoTracks)))) = dj \<and>
   list_ex (\<lambda>t. track_id t = track_id (mkTrack ''T2'' (Some 3))) (queue (hd (lobbies twoTracks))) \<and>
   adicionar_faixa ''A'' (mkTrack ''T2'' (Some 3)) twoTracks =
     emit (ToSocket ''A'') (erro_lobby JaNaFila) twoTracks \<and>
   ''T1'' \<notin> track_id ` set (queueOf (lobby_id (hd (lobbies twoTracks))) (remover_faixa ''A'' ''T1'' twoTracks))"
proof -
  have i: "distinctLobbies twoTracks \<and> uniqueTrackIds twoTracks"
    by (simp add: twoTracks_def distinctLobbies_def uniqueTrackIds_def eval_defs)
  have f: "findLobbyAndUser ''A'' (lobbies twoTracks) =
     Some (hd (lobbies twoTracks), hd (users (hd (lobbies twoTracks))))"
    by (simp add: twoTracks_def eval_defs)
  have r: "role (hd (users (hd (lobbies twoTracks)))) = dj"
    by (simp add: twoTracks_def eval_defs)
  have d: "list_ex (\<lambda>t. track_id t = track_id (mkTrack ''T2'' (Some 3))) (queue (hd (lobbies twoTracks)))"
    by (simp add: twoTracks_def eval_defs)
  show ?thesis
    using i f r d
      catalog_ids_unique_in_queue [of "[]" twoTracks "AdicionarFaixa ''A'' (mkTrack ''T3'' None)"
        "''A''" "hd (lobbies twoTracks)" "hd (users (hd (lobbies twoTracks)))"
        "mkTrack ''T2'' (Some 3)" "''T1''" "''L''"]
    by simp
qed

section \<open>Role assignment\<close>

text \<open>
  Claim C9 as stated fails: in run \<open>rejoin\<close> Alice creates the lobby, Bob and Carol
  join, Alice leaves and Dave joins. Dave is the fourth user to join, and he is
  made dj, because only one dj is left in the lobby when he joins.
\<close>

theorem fourth_joiner_is_dj_after_a_leave:
  "map (\<lambda>u. (user_id u, role u)) (usersOf ''L'' rejoin) =
     [(''B'', dj), (''C'', spectator), (''D'', dj)]"
  by (simp add: rejoin_def usersOf_def eval_defs)

text \<open>
  Claim C9, amended. A user who joins a lobby is appended to its users, as dj when
  fewer than two of the lobby's current users are dj and as spectator otherwise.
  Hence in every run in which no user disconnects, whatever else happens between
  the joins, the first two users of each lobby are dj and all later ones are
  spectator.
\<close>

theorem role_by_current_dj_count:
  "(\<not> blank lobbyId \<and> \<not> blank userName \<and> getLobby (trim lobbyId) s = Some lobby \<longrightarrow>
      usersOf (lobby_id lobby) (entrar_lobby socketId lobbyId userName s) =
        users lobby @
          [\<lparr>user_id = socketId, name = trim userName,
            role = (if length (filter (\<lambda>u. role u = dj) (users lobby)) < 2 then dj else spectator)\<rparr>]) \<and>
   ((\<forall>e\<in>set es. \<not> isDisconnect e) \<longrightarrow> rolesInJoinOrder (run es initial))"
proof (intro conjI impI)
  assume h: "\<not> blank lobbyId \<and> \<not> blank userName \<and> getLobby (trim lobbyId) s = Some lobby"
  then have i: "lobby_id lobby = trim lobbyId" by (auto simp: getLobby_def find_Some_iff)
  define newUser where "newUser = \<lparr>user_id = socketId, name = trim userName,
     role = (if length (filter (\<lambda>u. role u = dj) (users lobby)) < 2 then dj else spectator)\<rparr>"
  have "lobbies (entrar_lobby socketId lobbyId userName s) =
        lobbies (updLobby (lobby_id lobby) (\<lambda>l. l\<lparr>users := users l @ [newUser]\<rparr>) s)"
    using h by (simp add: entrar_lobby_def Let_def newUser_def)
  then have "usersOf (lobby_id lobby) (entrar_lobby socketId lobbyId userName s) =
        usersOf (lobby_id lobby) (updLobby (lobby_id lobby) (\<lambda>l. l\<lparr>users := users l @ [newUser]\<rparr>) s)"
    by (simp add: usersOf_def getLobby_def)
  also have "\<dots> = users lobby @ [newUser]"
    using h i by (simp add: usersOf_def getLobby_updLobby)
  finally show "usersOf (lobby_id lobby) (entrar_lobby socketId lobbyId userName s) =
        users lobby @
          [\<lparr>user_id = socketId, name = trim userName,
            role = (if length (filter (\<lambda>u. role u = dj) (users lobby)) < 2 then dj else spectator)\<rparr>]"
    by (simp add: newUser_def)
next
  assume "\<forall>e\<in>set es. \<not> isDisconnect e"
  moreover have "rolesInJoinOrder initial" by (simp add: rolesInJoinOrder_def initial_def)
  ultimately show "rolesInJoinOrder (run es initial)"
    using run_roles [of es initial] initial_inv by simp
qed

theorem role_by_current_dj_count_witness:
  "\<not> blank ''L'' \<and> \<not> blank ''Carol'' \<and> getLobby (trim ''L'') twoUsers = Some (hd (lobbies twoUsers)) \<and>
   map role (usersOf ''L'' (entrar_lobby ''C'' ''L'' ''Carol'' twoUsers)) = [dj, dj, spectator] \<and>
   list_all (\<lambda>e. \<not> isDisconnect e)
     [CriarLobby ''A'' ''L'' ''Alice'', EntrarLobby ''B'' ''L'' ''Bob'',
      AdicionarFaixa ''A'' (mkTrack ''T1'' (Some 30)), EntrarLobby ''C'' ''L'' ''Carol''] \<and>
   rolesInJoinOrder (run [CriarLobby ''A'' ''L'' ''Alice'', EntrarLobby ''B'' ''L'' ''Bob'',
              AdicionarFaixa ''A'' (mkTrack ''T1'' (Some 30)), EntrarLobby ''C'' ''L'' ''Carol''] initial)"
proof -
  have b: "\<not> blank ''L'' \<and> \<not> blank ''Carol''" by (simp add: blank_def trim_def whiteSpace_def stripLeading.simps)
  have g: "getLobby (trim ''L'') twoUsers = Some (hd (lobbies twoUsers))"
    by (simp add: twoUsers_def eval_defs)
  have i: "lobby_id (hd (lobbies twoUsers)) = ''L''" by (simp add: twoUsers_def eval_defs)
  have u: "map role (users (hd (lobbies twoUsers))) = [dj, dj]" by (simp add: twoUsers_def eval_defs)
  have c: "length (filter (\<lambda>u. role u = dj) (users (hd (lobbies twoUsers)))) = 2"
    by (simp add: twoUsers_def eval_defs)
  have n: "\<forall>e\<in>set [CriarLobby ''A'' ''L'' ''Alice'', EntrarLobby ''B'' ''L'' ''Bob'',
              AdicionarFaixa ''A'' (mkTrack ''T1'' (Some 30)), EntrarLobby ''C'' ''L'' ''Carol''].
      \<not> isDisconnect e" by simp
  show ?thesis
    using b g i u c n
      role_by_current_dj_count [of "''L''" "''Carol''" twoUsers "hd (lobbies twoUsers)" "''C''"
        "[CriarLobby ''A'' ''L'' ''Alice'', EntrarLobby ''B'' ''L'' ''Bob'',
          AdicionarFaixa ''A'' (mkTrack ''T1'' (Some 30)), EntrarLobby ''C'' ''L'' ''Carol'']"]
    by simp
qed

section \<open>Adding a track arms the scheduler for a new head\<close>




end
